theory Spec2Isabelle
  imports Main "HOL-Library.List_Lexorder"
begin

section \<open>Python strings\<close>

text \<open>
  A Python string is a sequence of Unicode code points, and a code point is a natural
  number here. \<open>str\<close> turns a literal of this theory into such a string. In what follows
  44 is the comma and 32 is the space.
\<close>

type_synonym pystr = "nat list"

definition str :: "string \<Rightarrow> pystr" where
  "str s = map of_char s"

text \<open>
  The Unicode tables of the Python runtime are not in the repository. They are a parameter
  \<open>py\<close> of every function that uses them: \<open>is_space py c\<close> says whether
  \<^verbatim>\<open>str.isspace\<close> accepts the code point \<open>c\<close>, which is what \<^verbatim>\<open>str.strip\<close> removes, and
  \<open>casefold py s\<close> is \<^verbatim>\<open>s.casefold()\<close>. What is proved for every \<open>py\<close> holds for the
  tables of any Python version.
\<close>

record unicode =
  is_space :: "nat \<Rightarrow> bool"
  casefold :: "pystr \<Rightarrow> pystr"

text \<open>\<^verbatim>\<open>s.strip()\<close>: leading and trailing whitespace removed.\<close>

definition strip :: "unicode \<Rightarrow> pystr \<Rightarrow> pystr" where
  "strip py s = rev (dropWhile (is_space py) (rev (dropWhile (is_space py) s)))"

text \<open>\<^verbatim>\<open>s.split(",")\<close>: never empty, \<^verbatim>\<open>"".split(",") == [""]\<close>.\<close>

fun split_comma :: "pystr \<Rightarrow> pystr list" where
  "split_comma [] = [[]]"
| "split_comma (c # cs) =
     (if c = 44 then [] # split_comma cs
      else (case split_comma cs of
              [] \<Rightarrow> [[c]]
            | p # ps \<Rightarrow> (c # p) # ps))"

text \<open>\<^verbatim>\<open>", ".join(xs)\<close>.\<close>

fun join_comma :: "pystr list \<Rightarrow> pystr" where
  "join_comma [] = []"
| "join_comma [x] = x"
| "join_comma (x # y # ys) = x @ 44 # 32 # join_comma (y # ys)"

text \<open>
  What Python's tables do on ASCII text, the part of them that the examples of the
  specification need: the ASCII code points that are whitespace, and case folding, which
  on ASCII text lowers the letters A to Z. \<open>python_on_ascii py\<close> says that \<open>py\<close> agrees
  with this (as the tables of every Python version do), and \<open>ascii_tables\<close> are the
  tables that do nothing else.
\<close>

definition ascii_text :: "pystr \<Rightarrow> bool" where
  "ascii_text s \<longleftrightarrow> (\<forall>c \<in> set s. c < 128)"

definition ascii_space :: "nat \<Rightarrow> bool" where
  "ascii_space c \<longleftrightarrow> c \<in> {9, 10, 11, 12, 13, 28, 29, 30, 31, 32}"

definition ascii_lower :: "nat \<Rightarrow> nat" where
  "ascii_lower c = (if 65 \<le> c \<and> c \<le> 90 then c + 32 else c)"

definition python_on_ascii :: "unicode \<Rightarrow> bool" where
  "python_on_ascii py \<longleftrightarrow>
     (\<forall>c. c < 128 \<longrightarrow> is_space py c = ascii_space c) \<and>
     (\<forall>s. ascii_text s \<longrightarrow> casefold py s = map ascii_lower s)"

definition ascii_tables :: unicode where
  "ascii_tables = \<lparr>is_space = ascii_space, casefold = map ascii_lower\<rparr>"

section \<open>The course-list normalizer\<close>

text \<open>
  The loop of \<^verbatim>\<open>_normalize_courses\<close> over \<^verbatim>\<open>parts\<close>, with its two accumulators:
  the list \<^verbatim>\<open>dedup\<close> and the set \<^verbatim>\<open>seen\<close>.
\<close>

fun dedup_loop :: "unicode \<Rightarrow> pystr list \<Rightarrow> pystr list \<Rightarrow> pystr set \<Rightarrow> pystr list" where
  "dedup_loop py [] dedup seen = dedup"
| "dedup_loop py (p # parts) dedup seen =
     (if p = [] then dedup_loop py parts dedup seen
      else let key = casefold py p in
        if key \<in> seen then dedup_loop py parts dedup seen
        else dedup_loop py parts (dedup @ [p]) (insert key seen))"

text \<open>\<^verbatim>\<open>_normalize_courses(courses)\<close>; \<open>None\<close> is Python's \<^verbatim>\<open>None\<close>.\<close>

definition normalize_courses :: "unicode \<Rightarrow> pystr option \<Rightarrow> pystr list" where
  "normalize_courses py courses =
     (let parts = map (strip py) (split_comma (case courses of None \<Rightarrow> [] | Some s \<Rightarrow> s))
      in dedup_loop py parts [] {})"

text \<open>
  The normalizer as the specification words it: of the trimmed, non-empty tokens, each is
  kept when no earlier token compares equal to it without regard to case, which for
  Python is equality of the case-folded strings.
\<close>

fun first_by_key :: "('a \<Rightarrow> 'k) \<Rightarrow> 'a list \<Rightarrow> 'a list" where
  "first_by_key f [] = []"
| "first_by_key f (x # xs) = x # first_by_key f (filter (\<lambda>y. f y \<noteq> f x) xs)"

definition normalize_spec :: "unicode \<Rightarrow> pystr option \<Rightarrow> pystr list" where
  "normalize_spec py courses =
     first_by_key (casefold py)
       (filter (\<lambda>p. p \<noteq> [])
          (map (strip py) (split_comma (case courses of None \<Rightarrow> [] | Some s \<Rightarrow> s))))"

section \<open>The relational store\<close>

text \<open>
  The module talks to a relational store through \<^verbatim>\<open>execute\<close>, \<^verbatim>\<open>fetch_one\<close> and
  \<^verbatim>\<open>fetch_all\<close>. The store is a state that every statement reads or updates; each SQL
  statement of the source is one definition below, and each Python function calls them in
  the order of the source.

  Modelled from the spec: the schema, which the source does not contain. Its section 6
  fixes the tables: Student(StudentID PK, Name, Age, Email); StudentDetails(StudentID
  PK/FK, PhoneNumber, CourseS); Course(CourseID PK auto, CourseName unique);
  StudentCourse(StudentID FK, CourseID FK, unique pair); section 3 has deletes cascade
  along the foreign keys. A table is the list of its rows in insertion order. Keys are
  checked where a statement would check them; that a state satisfies them is a predicate
  (\<open>unique_keys\<close> and the like below), not a property of the type.

  How the store compares CourseName values (the column's collation) is not in the source
  either. It is a parameter \<open>coll\<close>: two names are the same to the store when their images
  under \<open>coll\<close> are equal, and names are ordered by their images. The identity is
  comparison by exact pystr, \<open>ascii_ci\<close> is a collation without regard to the case of
  the letters A to Z.
\<close>

datatype error = RuntimeError | IntegrityError

type_synonym collation = "pystr \<Rightarrow> pystr"

definition ascii_ci :: collation where
  "ascii_ci = map ascii_lower"

record student_row =
  s_StudentID :: int
  s_Name :: pystr
  s_Age :: int
  s_Email :: pystr

record details_row =
  d_StudentID :: int
  d_PhoneNumber :: pystr
  d_CourseS :: "pystr option"

record course_row =
  c_CourseID :: int
  c_CourseName :: pystr

record enrollment_row =
  sc_StudentID :: int
  sc_CourseID :: int

record store =
  Student :: "student_row list"
  StudentDetails :: "details_row list"
  Course :: "course_row list"
  StudentCourse :: "enrollment_row list"
  next_CourseID :: int

definition empty_store :: store where
  "empty_store = \<lparr>Student = [], StudentDetails = [], Course = [], StudentCourse = [],
                   next_CourseID = 1\<rparr>"

subsection \<open>The statements on Course and StudentCourse\<close>

text \<open>\<^verbatim>\<open>INSERT IGNORE INTO Course (CourseName) VALUES (%s)\<close>: nothing happens when the
  unique key on CourseName already holds the name.\<close>

definition insert_ignore_course :: "collation \<Rightarrow> store \<Rightarrow> pystr \<Rightarrow> store" where
  "insert_ignore_course coll s name =
     (if \<exists>c \<in> set (Course s). coll (c_CourseName c) = coll name then s
      else s\<lparr>Course := Course s @ [\<lparr>c_CourseID = next_CourseID s, c_CourseName = name\<rparr>],
             next_CourseID := next_CourseID s + 1\<rparr>)"

text \<open>\<^verbatim>\<open>fetch_one("SELECT CourseID FROM Course WHERE CourseName = %s")\<close>: the first
  matching row, or nothing.\<close>

definition fetch_course_id :: "collation \<Rightarrow> store \<Rightarrow> pystr \<Rightarrow> int option" where
  "fetch_course_id coll s name =
     (case filter (\<lambda>c. coll (c_CourseName c) = coll name) (Course s) of
        [] \<Rightarrow> None
      | c # _ \<Rightarrow> Some (c_CourseID c))"

text \<open>\<^verbatim>\<open>ensure_course(name)\<close>, first with the two calls of the query executor as
  parameters: \<open>execute_insert\<close> is what \<^verbatim>\<open>execute("INSERT IGNORE INTO Course ...")\<close> does
  to the store and \<open>fetch_one_id\<close> what \<^verbatim>\<open>fetch_one("SELECT CourseID ...")\<close> returns,
  whatever the executor is. The source raises \<^verbatim>\<open>RuntimeError\<close>, which the specification
  calls a StateError.\<close>

definition ensure_course_via ::
  "(store \<Rightarrow> pystr \<Rightarrow> store) \<Rightarrow> (store \<Rightarrow> pystr \<Rightarrow> int option) \<Rightarrow> store \<Rightarrow> pystr
     \<Rightarrow> error + (int \<times> store)" where
  "ensure_course_via execute_insert fetch_one_id s name =
     (let s' = execute_insert s name in
      case fetch_one_id s' name of
        None \<Rightarrow> Inl RuntimeError
      | Some cid \<Rightarrow> Inr (cid, s'))"

text \<open>\<^verbatim>\<open>ensure_course(name)\<close> on the store of this model.\<close>

definition ensure_course :: "collation \<Rightarrow> store \<Rightarrow> pystr \<Rightarrow> error + (int \<times> store)" where
  "ensure_course coll s name =
     ensure_course_via (insert_ignore_course coll) (fetch_course_id coll) s name"

text \<open>\<^verbatim>\<open>DELETE FROM StudentCourse WHERE StudentID = %s\<close>.\<close>

definition delete_enrollments :: "store \<Rightarrow> int \<Rightarrow> store" where
  "delete_enrollments s student_id =
     s\<lparr>StudentCourse := filter (\<lambda>r. sc_StudentID r \<noteq> student_id) (StudentCourse s)\<rparr>"

text \<open>\<^verbatim>\<open>INSERT IGNORE INTO StudentCourse (StudentID, CourseID) VALUES (%s, %s)\<close>: with
  \<^verbatim>\<open>IGNORE\<close> the store drops a row that repeats the unique pair, and also a row whose
  foreign keys name no Student or no Course, without an error.\<close>

definition insert_ignore_enrollment :: "store \<Rightarrow> int \<Rightarrow> int \<Rightarrow> store" where
  "insert_ignore_enrollment s student_id cid =
     (if \<lparr>sc_StudentID = student_id, sc_CourseID = cid\<rparr> \<in> set (StudentCourse s)
         \<or> student_id \<notin> s_StudentID ` set (Student s)
         \<or> cid \<notin> c_CourseID ` set (Course s)
      then s
      else s\<lparr>StudentCourse :=
               StudentCourse s @ [\<lparr>sc_StudentID = student_id, sc_CourseID = cid\<rparr>]\<rparr>)"

text \<open>\<^verbatim>\<open>UPDATE StudentDetails SET CourseS = %s WHERE StudentID = %s\<close>.\<close>

definition update_legacy_courses :: "store \<Rightarrow> int \<Rightarrow> pystr \<Rightarrow> store" where
  "update_legacy_courses s student_id txt =
     s\<lparr>StudentDetails :=
         map (\<lambda>d. if d_StudentID d = student_id then d\<lparr>d_CourseS := Some txt\<rparr> else d)
           (StudentDetails s)\<rparr>"

subsection \<open>The enrollment synchronizer\<close>

text \<open>The \<^verbatim>\<open>for c in courses\<close> loop of \<^verbatim>\<open>set_student_courses\<close>; an exception of
  \<^verbatim>\<open>ensure_course\<close> ends it.\<close>

fun enroll_all :: "collation \<Rightarrow> store \<Rightarrow> int \<Rightarrow> pystr list \<Rightarrow> error + store" where
  "enroll_all coll s student_id [] = Inr s"
| "enroll_all coll s student_id (c # courses) =
     (case ensure_course coll s c of
        Inl e \<Rightarrow> Inl e
      | Inr (cid, s') \<Rightarrow>
          enroll_all coll (insert_ignore_enrollment s' student_id cid) student_id courses)"

definition set_student_courses ::
  "unicode \<Rightarrow> collation \<Rightarrow> store \<Rightarrow> int \<Rightarrow> pystr option \<Rightarrow> error + store" where
  "set_student_courses py coll s student_id courses_csv =
     (let courses = (normalize_courses py) courses_csv;
          s1 = delete_enrollments s student_id
      in case enroll_all coll s1 student_id courses of
           Inl e \<Rightarrow> Inl e
         | Inr s2 \<Rightarrow> Inr (update_legacy_courses s2 student_id (join_comma courses)))"

subsection \<open>Student details and students\<close>

text \<open>\<^verbatim>\<open>INSERT INTO StudentDetails ... ON DUPLICATE KEY UPDATE ...\<close>: a row with the key
  is updated; otherwise the row is inserted, which the foreign key refuses when no Student
  has the identifier.\<close>

definition insert_or_update_details ::
  "store \<Rightarrow> int \<Rightarrow> pystr \<Rightarrow> pystr option \<Rightarrow> error + store" where
  "insert_or_update_details s student_id phone courses_csv =
     (if \<exists>d \<in> set (StudentDetails s). d_StudentID d = student_id
      then Inr (s\<lparr>StudentDetails :=
                   map (\<lambda>d. if d_StudentID d = student_id
                             then d\<lparr>d_PhoneNumber := phone, d_CourseS := courses_csv\<rparr>
                             else d)
                     (StudentDetails s)\<rparr>)
      else if student_id \<notin> s_StudentID ` set (Student s) then Inl IntegrityError
      else Inr (s\<lparr>StudentDetails :=
                   StudentDetails s @
                     [\<lparr>d_StudentID = student_id, d_PhoneNumber = phone,
                       d_CourseS = courses_csv\<rparr>]\<rparr>))"

definition upsert_student_details ::
  "unicode \<Rightarrow> collation \<Rightarrow> store \<Rightarrow> int \<Rightarrow> pystr \<Rightarrow> pystr option \<Rightarrow> error + store" where
  "upsert_student_details py coll s student_id phone courses_csv =
     (case insert_or_update_details s student_id phone courses_csv of
        Inl e \<Rightarrow> Inl e
      | Inr s1 \<Rightarrow> set_student_courses py coll s1 student_id courses_csv)"

text \<open>\<^verbatim>\<open>INSERT INTO Student (StudentID, Name, Age, Email) VALUES (...)\<close>: the primary key
  refuses an identifier that is taken.\<close>

definition insert_student_row :: "store \<Rightarrow> int \<Rightarrow> pystr \<Rightarrow> int \<Rightarrow> pystr \<Rightarrow> error + store" where
  "insert_student_row s student_id name age email =
     (if student_id \<in> s_StudentID ` set (Student s) then Inl IntegrityError
      else Inr (s\<lparr>Student :=
                   Student s @ [\<lparr>s_StudentID = student_id, s_Name = name, s_Age = age,
                                 s_Email = email\<rparr>]\<rparr>))"

definition insert_student ::
  "unicode \<Rightarrow> collation \<Rightarrow> store \<Rightarrow> int \<Rightarrow> pystr \<Rightarrow> int \<Rightarrow> pystr \<Rightarrow> pystr \<Rightarrow> pystr option
     \<Rightarrow> error + store" where
  "insert_student py coll s student_id name age email phone courses_csv =
     (case insert_student_row s student_id name age email of
        Inl e \<Rightarrow> Inl e
      | Inr s1 \<Rightarrow> upsert_student_details py coll s1 student_id phone courses_csv)"

text \<open>\<^verbatim>\<open>UPDATE Student SET Name = %s, Age = %s, Email = %s WHERE StudentID = %s\<close>.\<close>

definition update_student :: "store \<Rightarrow> int \<Rightarrow> pystr \<Rightarrow> int \<Rightarrow> pystr \<Rightarrow> store" where
  "update_student s student_id name age email =
     s\<lparr>Student :=
         map (\<lambda>r. if s_StudentID r = student_id
                   then r\<lparr>s_Name := name, s_Age := age, s_Email := email\<rparr> else r)
           (Student s)\<rparr>"

text \<open>\<^verbatim>\<open>DELETE FROM Student WHERE StudentID = %s\<close>, with the cascade to the detail and
  enrollment rows of the student.\<close>

definition delete_student :: "store \<Rightarrow> int \<Rightarrow> store" where
  "delete_student s student_id =
     s\<lparr>Student := filter (\<lambda>r. s_StudentID r \<noteq> student_id) (Student s),
       StudentDetails := filter (\<lambda>d. d_StudentID d \<noteq> student_id) (StudentDetails s),
       StudentCourse := filter (\<lambda>r. sc_StudentID r \<noteq> student_id) (StudentCourse s)\<rparr>"

subsection \<open>Course maintenance\<close>

definition create_course :: "unicode \<Rightarrow> collation \<Rightarrow> store \<Rightarrow> pystr \<Rightarrow> error + store" where
  "create_course py coll s course_name =
     (case ensure_course coll s (strip py course_name) of
        Inl e \<Rightarrow> Inl e
      | Inr (cid, s') \<Rightarrow> Inr s')"

text \<open>\<^verbatim>\<open>UPDATE Course SET CourseName = %s WHERE CourseID = %s\<close>: the unique key refuses a
  name that another course holds.\<close>

definition rename_course :: "unicode \<Rightarrow> collation \<Rightarrow> store \<Rightarrow> int \<Rightarrow> pystr \<Rightarrow> error + store" where
  "rename_course py coll s course_id new_name =
     (let n = (strip py) new_name in
      if (\<exists>c \<in> set (Course s). c_CourseID c = course_id) \<and>
         (\<exists>c \<in> set (Course s). c_CourseID c \<noteq> course_id \<and> coll (c_CourseName c) = coll n)
      then Inl IntegrityError
      else Inr (s\<lparr>Course :=
                   map (\<lambda>c. if c_CourseID c = course_id then c\<lparr>c_CourseName := n\<rparr> else c)
                     (Course s)\<rparr>))"

text \<open>\<^verbatim>\<open>DELETE FROM Course WHERE CourseID = %s\<close>, with the cascade to the enrollment rows
  of the course.\<close>

definition delete_course :: "store \<Rightarrow> int \<Rightarrow> store" where
  "delete_course s course_id =
     s\<lparr>Course := filter (\<lambda>c. c_CourseID c \<noteq> course_id) (Course s),
       StudentCourse := filter (\<lambda>r. sc_CourseID r \<noteq> course_id) (StudentCourse s)\<rparr>"

section \<open>The queries\<close>

text \<open>
  A \<^verbatim>\<open>LEFT JOIN\<close> pairs a left row with each matching right row, and with one
  \<^verbatim>\<open>NULL\<close> row (\<open>None\<close>) when none matches.
\<close>

definition left_matches :: "'a list \<Rightarrow> 'a option list" where
  "left_matches ys = (if ys = [] then [None] else map Some ys)"

text \<open>\<^verbatim>\<open>GROUP BY\<close>: one group per distinct key, holding the rows with that key. The
  grouping columns are compared by exact value.\<close>

definition group_rows :: "('r \<Rightarrow> 'k) \<Rightarrow> 'r list \<Rightarrow> ('k \<times> 'r list) list" where
  "group_rows key rows =
     map (\<lambda>k. (k, filter (\<lambda>r. key r = k) rows)) (remdups (map key rows))"

text \<open>\<^verbatim>\<open>GROUP_CONCAT(DISTINCT x ORDER BY x SEPARATOR ', ')\<close> over the values of a group
  that are not \<^verbatim>\<open>NULL\<close>: \<^verbatim>\<open>NULL\<close> when there is none.\<close>

definition group_concat_distinct :: "collation \<Rightarrow> pystr list \<Rightarrow> pystr option" where
  "group_concat_distinct coll names =
     (if names = [] then None
      else Some (join_comma (sort_key coll (first_by_key coll names))))"

text \<open>\<^verbatim>\<open>NULLIF(x, '')\<close> and \<^verbatim>\<open>COALESCE(x, y)\<close>.\<close>

definition nullif_empty :: "pystr option \<Rightarrow> pystr option" where
  "nullif_empty x = (if x = Some [] then None else x)"

definition coalesce :: "'a option \<Rightarrow> 'a option \<Rightarrow> 'a option" where
  "coalesce x y = (case x of None \<Rightarrow> y | Some v \<Rightarrow> Some v)"

subsection \<open>Reading students\<close>

record student_view =
  StudentID :: int
  Name :: pystr
  Age :: int
  Email :: pystr
  PhoneNumber :: "pystr option"
  Courses :: "pystr option"

type_synonym joined_row =
  "student_row \<times> details_row option \<times> enrollment_row option \<times> course_row option"

text \<open>The \<^verbatim>\<open>FROM\<close> clause of \<^verbatim>\<open>list_students\<close>: Student, left-joined with
  StudentDetails, with StudentCourse and, through the enrollment row, with Course.\<close>

definition student_join :: "store \<Rightarrow> joined_row list" where
  "student_join s =
     [(st, d, sc, c).
        st \<leftarrow> Student s,
        d \<leftarrow> left_matches (filter (\<lambda>d. d_StudentID d = s_StudentID st) (StudentDetails s)),
        sc \<leftarrow> left_matches (filter (\<lambda>r. sc_StudentID r = s_StudentID st) (StudentCourse s)),
        c \<leftarrow> (case sc of
               None \<Rightarrow> [None]
             | Some r \<Rightarrow> left_matches (filter (\<lambda>c. c_CourseID c = sc_CourseID r) (Course s)))]"

definition list_students :: "collation \<Rightarrow> store \<Rightarrow> int option \<Rightarrow> student_view list" where
  "list_students coll s student_id =
     (let rows = filter (\<lambda>(st, d, sc, c).
                           case student_id of None \<Rightarrow> True | Some i \<Rightarrow> s_StudentID st = i)
                   (student_join s);
          groups = group_rows
                     (\<lambda>(st, d, sc, c). (st, map_option d_PhoneNumber d, Option.bind d d_CourseS))
                     rows;
          result = map (\<lambda>((st, phone, legacy), rs).
                          \<lparr>StudentID = s_StudentID st, Name = s_Name st, Age = s_Age st,
                           Email = s_Email st, PhoneNumber = phone,
                           Courses =
                             coalesce
                               (nullif_empty
                                  (group_concat_distinct coll
                                     (map c_CourseName
                                        (List.map_filter (\<lambda>(st, d, sc, c). c) rs))))
                               legacy\<rparr>)
                     groups
      in sort_key (\<lambda>v. - StudentID v) result)"

definition get_student :: "collation \<Rightarrow> store \<Rightarrow> int \<Rightarrow> student_view option" where
  "get_student coll s student_id =
     (case list_students coll s (Some student_id) of
        [] \<Rightarrow> None
      | r # _ \<Rightarrow> Some r)"

subsection \<open>Reading courses\<close>

record course_view =
  CourseID :: int
  CourseName :: pystr
  StudentCount :: int

definition list_courses :: "collation \<Rightarrow> store \<Rightarrow> course_view list" where
  "list_courses coll s =
     (let rows = [(c, sc).
                    c \<leftarrow> Course s,
                    sc \<leftarrow> left_matches
                           (filter (\<lambda>r. sc_CourseID r = c_CourseID c) (StudentCourse s))];
          groups = group_rows (\<lambda>(c, sc). (c_CourseID c, c_CourseName c)) rows;
          result = map (\<lambda>((cid, name), rs).
                          \<lparr>CourseID = cid, CourseName = name,
                           StudentCount =
                             int (length (List.map_filter (\<lambda>(c, sc). sc) rs))\<rparr>)
                     groups
      in sort_key (\<lambda>v. coll (CourseName v)) result)"

section \<open>Predicates used in the proofs\<close>

text \<open>A token with no whitespace at either end, and not empty.\<close>

definition trimmed :: "unicode \<Rightarrow> pystr \<Rightarrow> bool" where
  "trimmed py t \<longleftrightarrow> t \<noteq> [] \<and> \<not> is_space py (hd t) \<and> \<not> is_space py (last t)"

text \<open>The identifiers and the names of the courses a student is enrolled in: the rows of
  StudentCourse for the student, and the Course rows they lead to.\<close>

definition enrolled_ids :: "store \<Rightarrow> int \<Rightarrow> int list" where
  "enrolled_ids s student_id =
     map sc_CourseID (filter (\<lambda>r. sc_StudentID r = student_id) (StudentCourse s))"

definition enrolled_names :: "store \<Rightarrow> int \<Rightarrow> pystr list" where
  "enrolled_names s student_id =
     [c_CourseName c.
        r \<leftarrow> filter (\<lambda>r. sc_StudentID r = student_id) (StudentCourse s),
        c \<leftarrow> filter (\<lambda>c. c_CourseID c = sc_CourseID r) (Course s)]"

text \<open>CourseID is a primary key filled by auto-increment: no two courses share an
  identifier, and the next identifier is above all that are in use.\<close>

definition course_ids_ok :: "store \<Rightarrow> bool" where
  "course_ids_ok s \<longleftrightarrow>
     distinct (map c_CourseID (Course s)) \<and>
     (\<forall>c \<in> set (Course s). c_CourseID c < next_CourseID s)"

section \<open>The queries, row by row\<close>

text \<open>StudentID is the primary key of Student and of StudentDetails.\<close>

definition student_keys_ok :: "store \<Rightarrow> bool" where
  "student_keys_ok s \<longleftrightarrow>
     distinct (map s_StudentID (Student s)) \<and> distinct (map d_StudentID (StudentDetails s))"

text \<open>The \<^verbatim>\<open>WHERE\<close> clause of \<^verbatim>\<open>list_students\<close>, as a predicate on Student rows.\<close>

definition where_student :: "int option \<Rightarrow> student_row \<Rightarrow> bool" where
  "where_student student_id st \<longleftrightarrow>
     (case student_id of None \<Rightarrow> True | Some i \<Rightarrow> s_StudentID st = i)"

text \<open>The details row that \<^verbatim>\<open>LEFT JOIN StudentDetails\<close> joins to a student: \<open>None\<close> is
  the \<^verbatim>\<open>NULL\<close> row.\<close>

definition details_of :: "store \<Rightarrow> int \<Rightarrow> details_row option" where
  "details_of s student_id =
     (case filter (\<lambda>d. d_StudentID d = student_id) (StudentDetails s) of
        [] \<Rightarrow> None
      | d # _ \<Rightarrow> Some d)"

text \<open>The joined rows of one student.\<close>

definition student_rows :: "store \<Rightarrow> student_row \<Rightarrow> joined_row list" where
  "student_rows s st =
     [(st, d, sc, c).
        d \<leftarrow> left_matches (filter (\<lambda>d. d_StudentID d = s_StudentID st) (StudentDetails s)),
        sc \<leftarrow> left_matches (filter (\<lambda>r. sc_StudentID r = s_StudentID st) (StudentCourse s)),
        c \<leftarrow> (case sc of
               None \<Rightarrow> [None]
             | Some r \<Rightarrow> left_matches (filter (\<lambda>c. c_CourseID c = sc_CourseID r) (Course s)))]"

text \<open>What \<^verbatim>\<open>list_students\<close> reports for one student, and \<^verbatim>\<open>list_courses\<close> for one
  course, when the keys hold.\<close>

definition student_view_of :: "collation \<Rightarrow> store \<Rightarrow> student_row \<Rightarrow> student_view" where
  "student_view_of coll s st =
     \<lparr>StudentID = s_StudentID st, Name = s_Name st, Age = s_Age st, Email = s_Email st,
      PhoneNumber = map_option d_PhoneNumber (details_of s (s_StudentID st)),
      Courses =
        coalesce (nullif_empty (group_concat_distinct coll (enrolled_names s (s_StudentID st))))
          (Option.bind (details_of s (s_StudentID st)) d_CourseS)\<rparr>"

definition course_view_of :: "store \<Rightarrow> course_row \<Rightarrow> course_view" where
  "course_view_of s c =
     \<lparr>CourseID = c_CourseID c, CourseName = c_CourseName c,
      StudentCount = int (length (filter (\<lambda>r. sc_CourseID r = c_CourseID c) (StudentCourse s)))\<rparr>"

text \<open>The legacy field as the query sees it, and the Courses value as the specification
  words it: the names of the courses the student is enrolled in, without duplicates under
  the store's comparison of names, in the store's order of names, joined by comma and
  space, when that text is not empty; the legacy field otherwise.\<close>

definition legacy_courses :: "store \<Rightarrow> int \<Rightarrow> pystr option" where
  "legacy_courses s student_id = Option.bind (details_of s student_id) d_CourseS"

definition courses_spec :: "collation \<Rightarrow> store \<Rightarrow> int \<Rightarrow> pystr option" where
  "courses_spec coll s student_id =
     (let names = enrolled_names s student_id;
          agg = join_comma (sort_key coll (first_by_key coll names))
      in if names = [] \<or> agg = [] then legacy_courses s student_id else Some agg)"

section \<open>Concrete states used as examples\<close>

text \<open>The store after \<^verbatim>\<open>insert_student(1, "Alice", 20, "a@x.com", "555-1234", "Bio, bio, Chem")\<close>
  on an empty store, what \<^verbatim>\<open>get_student(1)\<close> reports there, and the store after
  \<^verbatim>\<open>set_student_courses(1, "Math, math, Bio")\<close> in that state.\<close>

definition alice_store :: store where
  "alice_store =
     \<lparr>Student = [\<lparr>s_StudentID = 1, s_Name = (str ''Alice''), s_Age = 20, s_Email = (str ''a@x.com'')\<rparr>],
      StudentDetails = [\<lparr>d_StudentID = 1, d_PhoneNumber = (str ''555-1234''),
                         d_CourseS = Some (str ''Bio, Chem'')\<rparr>],
      Course = [\<lparr>c_CourseID = 1, c_CourseName = (str ''Bio'')\<rparr>,
                \<lparr>c_CourseID = 2, c_CourseName = (str ''Chem'')\<rparr>],
      StudentCourse = [\<lparr>sc_StudentID = 1, sc_CourseID = 1\<rparr>,
                       \<lparr>sc_StudentID = 1, sc_CourseID = 2\<rparr>],
      next_CourseID = 3\<rparr>"

definition alice_view :: student_view where
  "alice_view = \<lparr>StudentID = 1, Name = (str ''Alice''), Age = 20, Email = (str ''a@x.com''),
     PhoneNumber = Some (str ''555-1234''), Courses = Some (str ''Bio, Chem'')\<rparr>"

definition alice_math_store :: store where
  "alice_math_store =
     \<lparr>Student = [\<lparr>s_StudentID = 1, s_Name = (str ''Alice''), s_Age = 20, s_Email = (str ''a@x.com'')\<rparr>],
      StudentDetails = [\<lparr>d_StudentID = 1, d_PhoneNumber = (str ''555-1234''),
                         d_CourseS = Some (str ''Math, Bio'')\<rparr>],
      Course = [\<lparr>c_CourseID = 1, c_CourseName = (str ''Bio'')\<rparr>,
                \<lparr>c_CourseID = 2, c_CourseName = (str ''Chem'')\<rparr>,
                \<lparr>c_CourseID = 3, c_CourseName = (str ''Math'')\<rparr>],
      StudentCourse = [\<lparr>sc_StudentID = 1, sc_CourseID = 3\<rparr>,
                       \<lparr>sc_StudentID = 1, sc_CourseID = 1\<rparr>],
      next_CourseID = 4\<rparr>"

text \<open>A student whose legacy field is \<^verbatim>\<open>"Biology"\<close> and who has no enrollment row, and
  what the listing reports for him.\<close>

definition biology_store :: store where
  "biology_store =
     \<lparr>Student = [\<lparr>s_StudentID = 7, s_Name = (str ''Bob''), s_Age = 31, s_Email = (str ''b@x.com'')\<rparr>],
      StudentDetails = [\<lparr>d_StudentID = 7, d_PhoneNumber = (str ''555-0000''),
                         d_CourseS = Some (str ''Biology'')\<rparr>],
      Course = [\<lparr>c_CourseID = 1, c_CourseName = (str ''Bio'')\<rparr>],
      StudentCourse = [],
      next_CourseID = 2\<rparr>"

definition bob_view :: student_view where
  "bob_view = \<lparr>StudentID = 7, Name = (str ''Bob''), Age = 31, Email = (str ''b@x.com''),
     PhoneNumber = Some (str ''555-0000''), Courses = Some (str ''Biology'')\<rparr>"

text \<open>The empty store after \<^verbatim>\<open>set_student_courses(99, "Math")\<close>.\<close>

definition math_only_store :: store where
  "math_only_store =
     \<lparr>Student = [], StudentDetails = [],
      Course = [\<lparr>c_CourseID = 1, c_CourseName = str ''Math''\<rparr>],
      StudentCourse = [],
      next_CourseID = 2\<rparr>"

section \<open>The normalizer: proofs\<close>

lemma dedup_loop_spec: "(dedup_loop py) ps acc seen = acc @ first_by_key (casefold py) (filter (\<lambda>p. p \<noteq> [] \<and> (casefold py) p \<notin> seen) ps)"
proof (induction ps arbitrary: acc seen)
  case Nil show ?case by simp
next
  case (Cons p ps)
  have "filter (\<lambda>y. (casefold py) y \<noteq> (casefold py) p) (filter (\<lambda>q. q \<noteq> [] \<and> (casefold py) q \<notin> seen) ps) = filter (\<lambda>q. q \<noteq> [] \<and> (casefold py) q \<notin> insert (casefold py p) seen) ps"
    by (induction ps) auto
  with Cons show ?case by (simp add: Let_def)
qed

lemma normalize_courses_eq_spec: "(normalize_courses py) x = (normalize_spec py) x"
  by (simp add: normalize_courses_def normalize_spec_def dedup_loop_spec)

lemma dropWhile_rev_keep:
  "u \<noteq> [] \<Longrightarrow> \<not> P (hd u) \<Longrightarrow> rev (dropWhile P (rev u)) \<noteq> [] \<and> hd (rev (dropWhile P (rev u))) = hd u"
proof (induction u rule: rev_induct)
  case Nil then show ?case by simp
next
  case (snoc x xs)
  show ?case
  proof (cases "xs = []")
    case True with snoc.prems show ?thesis by simp
  next
    case False
    with snoc show ?thesis by (auto simp: hd_append)
  qed
qed

lemma last_rev_dropWhile:
  "rev (dropWhile P (rev u)) \<noteq> [] \<Longrightarrow> \<not> P (last (rev (dropWhile P (rev u))))"
  by (simp add: last_rev hd_dropWhile)

lemma strip_trimmed_or_empty: "(strip py) s = [] \<or> (trimmed py) (strip py s)"
proof (cases "dropWhile (is_space py) s = []")
  case True show ?thesis by (simp add: strip_def True)
next
  case False
  then have h: "\<not> (is_space py) (hd (dropWhile (is_space py) s))" by (rule hd_dropWhile)
  let ?r = "rev (dropWhile (is_space py) (rev (dropWhile (is_space py) s)))"
  from dropWhile_rev_keep [of "dropWhile (is_space py) s" "is_space py", OF False h] have k: "?r \<noteq> []" "hd ?r = hd (dropWhile (is_space py) s)"
    by blast+
  from k(1) have "\<not> (is_space py) (last ?r)" by (rule last_rev_dropWhile)
  with k h have "(trimmed py) ?r" by (simp add: trimmed_def)
  then show ?thesis unfolding strip_def by blast
qed

lemma strip_of_trimmed: "(trimmed py) t \<Longrightarrow> (strip py) t = t"
proof -
  assume t: "(trimmed py) t"
  then have a: "dropWhile (is_space py) t = t" by (cases t) (auto simp: trimmed_def)
  from t have "dropWhile (is_space py) (rev t) = rev t" 
    by (cases "rev t") (auto simp: trimmed_def last_rev hd_rev)
  with a show ?thesis by (simp add: strip_def)
qed

lemma strip_space_trimmed: "is_space py 32 \<Longrightarrow> trimmed py t \<Longrightarrow> strip py (32 # t) = t"
proof -
  assume t: "trimmed py t"
  assume "is_space py 32"
  then have "(strip py) ((32::nat) # t) = (strip py) t" by (simp add: strip_def)
  with t show ?thesis by (simp add: strip_of_trimmed)
qed

lemma set_strip_subset: "set (strip py s) \<subseteq> set s"
  by (auto simp: strip_def dest!: set_dropWhileD)

lemma split_comma_no_comma: "p \<in> set (split_comma s) \<Longrightarrow> (44::nat) \<notin> set p"
  by (induction s arbitrary: p) (auto split: if_splits list.splits)

lemma split_comma_not_Nil: "split_comma s \<noteq> []"
  by (induction s) (auto split: list.splits)

lemma split_comma_plain: "(44::nat) \<notin> set t \<Longrightarrow> split_comma t = [t]"
  by (induction t) auto

lemma split_comma_append:
  "(44::nat) \<notin> set t \<Longrightarrow> split_comma (t @ (44::nat) # r) = t # split_comma r"
  by (induction t) auto

lemma split_comma_join:
  "\<forall>t\<in>set (x # xs). (44::nat) \<notin> set t \<Longrightarrow>
   split_comma (join_comma (x # xs)) = x # map (\<lambda>t. (32::nat) # t) xs"
proof (induction xs arbitrary: x)
  case Nil then show ?case by (simp add: split_comma_plain)
next
  case (Cons y ys)
  then show ?case using split_comma_append by (auto split: list.splits)
qed

lemma first_by_key_subset: "set (first_by_key f xs) \<subseteq> set xs"
  by (induction f xs rule: first_by_key.induct) auto

lemma first_by_key_distinct: "distinct (map f (first_by_key f xs))"
proof (induction f xs rule: first_by_key.induct)
  case (1 f) show ?case by simp
next
  case (2 f x xs)
  have "f x \<notin> f ` set (first_by_key f (filter (\<lambda>y. f y \<noteq> f x) xs))"
    using first_by_key_subset [of f "filter (\<lambda>y. f y \<noteq> f x) xs"] by auto
  with 2 show ?case by simp
qed

lemma first_by_key_id: "distinct (map f xs) \<Longrightarrow> first_by_key f xs = xs"
proof (induction xs)
  case Nil show ?case by simp
next
  case (Cons x xs)
  from Cons.prems have "f x \<notin> f ` set xs" by simp
  then have "\<forall>y\<in>set xs. f y \<noteq> f x" by (metis imageI)
  then have "filter (\<lambda>y. f y \<noteq> f x) xs = xs" by (rule filter_True)
  with Cons show ?case by simp
qed

lemma normalize_spec_props:
  assumes "t \<in> set (normalize_spec py x)"
  shows "(trimmed py) t \<and> (44::nat) \<notin> set t"
proof -
  let ?s = "case x of None \<Rightarrow> [] | Some s \<Rightarrow> s"
  let ?toks = "filter (\<lambda>p. p \<noteq> []) (map (strip py) (split_comma ?s))"
  have "set (first_by_key (casefold py) ?toks) \<subseteq> set ?toks"
    by (rule first_by_key_subset)
  with assms have "t \<in> set ?toks"
    unfolding normalize_spec_def by (rule subsetD [rotated])
  then have ne: "t \<noteq> []" and im: "t \<in> (strip py) ` set (split_comma ?s)"
    by simp_all
  from im obtain p where p: "p \<in> set (split_comma ?s)" and t: "t = (strip py) p"
    by (rule imageE)
  from strip_trimmed_or_empty [of py p] ne have "(trimmed py) t"
    unfolding t by simp
  moreover from p have "(44::nat) \<notin> set p" by (rule split_comma_no_comma)
  with set_strip_subset [of py p] have "(44::nat) \<notin> set t"
    unfolding t by (rule contra_subsetD)
  ultimately show ?thesis by simp
qed

lemma renormalize:
  assumes sp: "is_space py 32" and props: "\<forall>u\<in>set ts. (trimmed py) u \<and> (44::nat) \<notin> set u"
    and dist: "distinct (map (casefold py) ts)"
  shows "(normalize_spec py) (Some (join_comma ts)) = ts"
proof (cases ts)
  case Nil
  then show ?thesis by (simp add: normalize_spec_def strip_def)
next
  case (Cons t ts')
  from props Cons have 1: "split_comma (join_comma ts) = t # map (\<lambda>u. (32::nat) # u) ts'"
    using split_comma_join [of t ts'] by simp
  from props Cons have 2: "map (strip py) (t # map (\<lambda>u. (32::nat) # u) ts') = ts"
    by (simp add: strip_of_trimmed strip_space_trimmed [OF sp] map_idI)
  from props have 3: "filter (\<lambda>p. p \<noteq> []) ts = ts"
    by (intro filter_True) (auto simp: trimmed_def)
  from dist have 4: "first_by_key (casefold py) ts = ts" by (rule first_by_key_id)
  show ?thesis by (simp only: normalize_spec_def option.case 1 2 3 4)
qed

lemma normalize_courses_join:
  assumes "is_space py 32"
  shows "normalize_courses py (Some (join_comma (normalize_courses py x))) = normalize_courses py x"
proof -
  have "\<forall>u\<in>set (normalize_spec py x). trimmed py u \<and> (44::nat) \<notin> set u"
    using normalize_spec_props by blast
  moreover have "distinct (map (casefold py) (normalize_spec py x))"
    unfolding normalize_spec_def by (rule first_by_key_distinct)
  ultimately have "normalize_spec py (Some (join_comma (normalize_spec py x))) = normalize_spec py x"
    by (rule renormalize [OF assms])
  then show ?thesis by (simp only: normalize_courses_eq_spec)
qed

lemma python_on_ascii_tables: "python_on_ascii ascii_tables"
  by (simp add: python_on_ascii_def ascii_tables_def)

lemma split_comma_subset: "\<forall>p \<in> set (split_comma s). set p \<subseteq> set s"
proof (induction s)
  case Nil show ?case by simp
next
  case (Cons c cs)
  show ?case
  proof (cases "c = 44")
    case True
    with Cons show ?thesis by auto
  next
    case False
    obtain p0 ps where sp: "split_comma cs = p0 # ps"
      using split_comma_not_Nil [of cs] by (cases "split_comma cs") auto
    with Cons have "set p0 \<subseteq> set cs" "\<forall>p \<in> set ps. set p \<subseteq> set cs" by simp_all
    then have "set (c # p0) \<subseteq> set (c # cs)" "\<forall>p \<in> set ps. set p \<subseteq> set (c # cs)"
      by auto
    with False sp show ?thesis by simp
  qed
qed

lemma ascii_text_split: "ascii_text s \<Longrightarrow> p \<in> set (split_comma s) \<Longrightarrow> ascii_text p"
  using split_comma_subset [of s] by (auto simp: ascii_text_def)

lemma ascii_text_strip: "ascii_text p \<Longrightarrow> ascii_text (strip py p)"
  using set_strip_subset [of py p] by (auto simp: ascii_text_def)

lemma strip_ascii:
  assumes "python_on_ascii py" and "ascii_text p"
  shows "strip py p = strip ascii_tables p"
proof -
  have sp: "is_space py c = is_space ascii_tables c" if "c \<in> set p" for c
    using that assms by (simp add: python_on_ascii_def ascii_text_def ascii_tables_def)
  have 1: "dropWhile (is_space py) p = dropWhile (is_space ascii_tables) p"
    by (rule dropWhile_cong [OF refl]) (rule sp)
  have 2: "dropWhile (is_space py) (rev (dropWhile (is_space ascii_tables) p)) =
           dropWhile (is_space ascii_tables) (rev (dropWhile (is_space ascii_tables) p))"
  proof (rule dropWhile_cong [OF refl])
    fix c assume "c \<in> set (rev (dropWhile (is_space ascii_tables) p))"
    then have "c \<in> set p" by (auto dest: set_dropWhileD)
    then show "is_space py c = is_space ascii_tables c" by (rule sp)
  qed
  show ?thesis by (simp only: strip_def 1 2)
qed

lemma dedup_loop_cong:
  "\<forall>p \<in> set ps. casefold py p = casefold py' p \<Longrightarrow>
   dedup_loop py ps acc seen = dedup_loop py' ps acc seen"
  by (induction ps arbitrary: acc seen) (simp_all add: Let_def)

lemma normalize_ascii:
  assumes py: "python_on_ascii py" and x: "ascii_text x"
  shows "normalize_courses py (Some x) = normalize_courses ascii_tables (Some x)"
proof -
  have toks: "map (strip py) (split_comma x) = map (strip ascii_tables) (split_comma x)"
  proof (rule map_cong [OF refl])
    fix p assume "p \<in> set (split_comma x)"
    with x have "ascii_text p" by (rule ascii_text_split)
    with py show "strip py p = strip ascii_tables p" by (rule strip_ascii)
  qed
  have "\<forall>p \<in> set (map (strip ascii_tables) (split_comma x)).
          casefold py p = casefold ascii_tables p"
  proof
    fix p assume "p \<in> set (map (strip ascii_tables) (split_comma x))"
    then obtain q where q: "q \<in> set (split_comma x)" and p: "p = strip ascii_tables q"
      by auto
    from x q have "ascii_text q" by (rule ascii_text_split)
    then have "ascii_text p" unfolding p by (rule ascii_text_strip)
    with py show "casefold py p = casefold ascii_tables p"
      by (simp add: python_on_ascii_def ascii_tables_def)
  qed
  then have "dedup_loop py (map (strip ascii_tables) (split_comma x)) [] {} =
             dedup_loop ascii_tables (map (strip ascii_tables) (split_comma x)) [] {}"
    by (rule dedup_loop_cong)
  then show ?thesis by (simp add: normalize_courses_def toks)
qed

text \<open>
  Claim C3. For every input, \<^verbatim>\<open>None\<close> and the empty string included, and whatever the
  Unicode tables of the Python runtime are, the normalizer returns the trimmed tokens in
  their order, without the empty ones, a token being dropped when an earlier one equals it
  up to case (has the same case-folded string), so that the first casing seen is kept: the
  loop of the source computes what the specification words. \<^verbatim>\<open>None\<close> and the empty
  string give the empty list. With tables that do on ASCII text what Python's do,
  normalizing \<^verbatim>\<open>"Math, math, MATH"\<close> gives \<^verbatim>\<open>["Math"]\<close> and normalizing
  \<^verbatim>\<open>"Math, , Art"\<close> gives \<^verbatim>\<open>["Math", "Art"]\<close>. The function reads and writes no state:
  it is a function of its argument and of the tables alone.
\<close>

theorem normalize_courses_correct:
  "normalize_courses py x = normalize_spec py x \<and>
   normalize_courses py None = [] \<and>
   normalize_courses py (Some []) = [] \<and>
   (python_on_ascii py \<longrightarrow>
      normalize_courses py (Some (str ''Math, math, MATH'')) = [str ''Math''] \<and>
      normalize_courses py (Some (str ''Math, , Art'')) = [str ''Math'', str ''Art''])"
proof -
  have 1: "normalize_courses py None = []"
    by (simp add: normalize_courses_def strip_def)
  have 2: "normalize_courses py (Some []) = []"
    by (simp add: normalize_courses_def strip_def)
  have a: "ascii_text (str ''Math, math, MATH'')" "ascii_text (str ''Math, , Art'')"
    by code_simp+
  have e1: "normalize_courses ascii_tables (Some (str ''Math, math, MATH'')) = [str ''Math'']"
    by code_simp
  have e2: "normalize_courses ascii_tables (Some (str ''Math, , Art'')) = [str ''Math'', str ''Art'']"
    by code_simp
  have 3: "python_on_ascii py \<longrightarrow>
      normalize_courses py (Some (str ''Math, math, MATH'')) = [str ''Math''] \<and>
      normalize_courses py (Some (str ''Math, , Art'')) = [str ''Math'', str ''Art'']"
  proof
    assume py: "python_on_ascii py"
    from normalize_ascii [OF py a(1)] normalize_ascii [OF py a(2)] e1 e2
    show "normalize_courses py (Some (str ''Math, math, MATH'')) = [str ''Math''] \<and>
      normalize_courses py (Some (str ''Math, , Art'')) = [str ''Math'', str ''Art'']"
      by (simp only: simp_thms)
  qed
  have 0: "normalize_courses py x = normalize_spec py x" by (rule normalize_courses_eq_spec)
  show ?thesis by (intro conjI) (rule 0 1 2 3)+
qed

theorem normalize_courses_correct_witness:
  "python_on_ascii ascii_tables \<and>
   normalize_courses ascii_tables (Some (str ''Math, math, MATH'')) = [str ''Math''] \<and>
   normalize_courses ascii_tables (Some (str ''Math, , Art'')) = [str ''Math'', str ''Art'']"
  using normalize_courses_correct [of ascii_tables None] python_on_ascii_tables by blast

text \<open>
  Claim C8. Normalization is idempotent through its own rendering, for every input and
  whatever the Unicode tables are, as long as the space is whitespace for
  \<^verbatim>\<open>str.strip\<close> (as it is in Python): joining the normalized list with \<^verbatim>\<open>", "\<close>, as
  \<^verbatim>\<open>set_student_courses\<close> does for the legacy field, and normalizing the result gives the
  normalized list again.
\<close>

theorem normalize_idempotent:
  "is_space py 32 \<Longrightarrow>
   normalize_courses py (Some (join_comma (normalize_courses py x))) = normalize_courses py x"
  by (rule normalize_courses_join)

theorem normalize_idempotent_witness:
  "is_space ascii_tables 32 \<and>
   normalize_courses ascii_tables (Some (str ''Math, math, Bio'')) = [str ''Math'', str ''Bio''] \<and>
   join_comma [str ''Math'', str ''Bio''] = str ''Math, Bio'' \<and>
   normalize_courses ascii_tables (Some (str ''Math, Bio'')) = [str ''Math'', str ''Bio'']"
proof -
  have sp: "is_space ascii_tables 32" by code_simp
  have n: "normalize_courses ascii_tables (Some (str ''Math, math, Bio'')) = [str ''Math'', str ''Bio'']"
    by code_simp
  have j: "join_comma [str ''Math'', str ''Bio''] = str ''Math, Bio''" by code_simp
  from normalize_idempotent [OF sp, of "Some (str ''Math, math, Bio'')"]
  have "normalize_courses ascii_tables (Some (str ''Math, Bio'')) = [str ''Math'', str ''Bio'']"
    unfolding n j .
  with sp n j show ?thesis by (intro conjI)
qed

section \<open>The course registrar: proofs\<close>

lemma fetch_course_id_None_iff:
  "fetch_course_id coll s name = None \<longleftrightarrow>
   (\<forall>c \<in> set (Course s). coll (c_CourseName c) \<noteq> coll name)"
proof -
  have "fetch_course_id coll s name = None \<longleftrightarrow>
        filter (\<lambda>c. coll (c_CourseName c) = coll name) (Course s) = []"
    by (simp add: fetch_course_id_def split: list.splits)
  then show ?thesis by (simp add: filter_empty_conv)
qed

lemma fetch_course_id_SomeD:
  assumes "fetch_course_id coll s name = Some cid"
  shows "\<exists>c \<in> set (Course s). c_CourseID c = cid \<and> coll (c_CourseName c) = coll name"
proof -
  from assms obtain c cs where f: "filter (\<lambda>c. coll (c_CourseName c) = coll name) (Course s) = c # cs"
    and cid: "cid = c_CourseID c"
    by (auto simp: fetch_course_id_def split: list.splits)
  have "c \<in> set (filter (\<lambda>c. coll (c_CourseName c) = coll name) (Course s))"
    unfolding f by simp
  with cid show ?thesis by auto
qed

lemma fetch_after_insert_ignore:
  "fetch_course_id coll (insert_ignore_course coll s name) name \<noteq> None"
  by (simp add: fetch_course_id_None_iff insert_ignore_course_def)

text \<open>
  Claim C5. Whatever the query executor does, \<^verbatim>\<open>ensure_course\<close> raises exactly when the
  lookup that follows the insert-or-ignore finds no row, and otherwise returns the
  identifier the lookup found, in the store the insert has left. On the store of this
  model, where the insert-or-ignore leaves a row with the name behind whatever the state
  (the unique key holds the name already, or the row is inserted), the lookup finds one, so
  the error is never raised, and the identifier returned is that of a course whose name
  the store takes for the given one.
\<close>

theorem ensure_course_result:
  "(ensure_course_via execute_insert fetch_one_id s name = Inl RuntimeError \<longleftrightarrow>
      fetch_one_id (execute_insert s name) name = None) \<and>
   (\<forall>cid. fetch_one_id (execute_insert s name) name = Some cid \<longrightarrow>
      ensure_course_via execute_insert fetch_one_id s name = Inr (cid, execute_insert s name)) \<and>
   ensure_course coll s name =
     ensure_course_via (insert_ignore_course coll) (fetch_course_id coll) s name \<and>
   (\<exists>cid. ensure_course coll s name = Inr (cid, insert_ignore_course coll s name) \<and>
      fetch_course_id coll (insert_ignore_course coll s name) name = Some cid \<and>
      (\<exists>c \<in> set (Course (insert_ignore_course coll s name)).
         c_CourseID c = cid \<and> coll (c_CourseName c) = coll name))"
proof -
  have 1: "ensure_course_via execute_insert fetch_one_id s name = Inl RuntimeError \<longleftrightarrow>
      fetch_one_id (execute_insert s name) name = None"
    by (simp add: ensure_course_via_def Let_def split: option.splits)
  have 2: "\<forall>cid. fetch_one_id (execute_insert s name) name = Some cid \<longrightarrow>
      ensure_course_via execute_insert fetch_one_id s name = Inr (cid, execute_insert s name)"
    by (simp add: ensure_course_via_def Let_def)
  have 3: "ensure_course coll s name =
     ensure_course_via (insert_ignore_course coll) (fetch_course_id coll) s name"
    by (rule ensure_course_def)
  let ?s' = "insert_ignore_course coll s name"
  obtain cid where cid: "fetch_course_id coll ?s' name = Some cid"
    using fetch_after_insert_ignore [of coll s name] by auto
  then have "ensure_course coll s name = Inr (cid, ?s')"
    by (simp add: ensure_course_def ensure_course_via_def Let_def)
  with cid fetch_course_id_SomeD [OF cid]
  have 4: "\<exists>cid. ensure_course coll s name = Inr (cid, ?s') \<and>
      fetch_course_id coll ?s' name = Some cid \<and>
      (\<exists>c \<in> set (Course ?s'). c_CourseID c = cid \<and> coll (c_CourseName c) = coll name)"
    by blast
  show ?thesis by (intro conjI) (rule 1 2 3 4)+
qed

theorem ensure_course_result_witness:
  "fetch_course_id id empty_store (str ''Math'') = None \<and>
   ensure_course_via (\<lambda>s name. s) (fetch_course_id id) empty_store (str ''Math'') =
     Inl RuntimeError \<and>
   fetch_course_id id (insert_ignore_course id empty_store (str ''Math'')) (str ''Math'') =
     Some 1 \<and>
   ensure_course id empty_store (str ''Math'') =
     Inr (1, empty_store\<lparr>Course := [\<lparr>c_CourseID = 1, c_CourseName = str ''Math''\<rparr>],
                         next_CourseID := 2\<rparr>)"
proof -
  have miss: "fetch_course_id id empty_store (str ''Math'') = None" by code_simp
  have hit: "fetch_course_id id (insert_ignore_course id empty_store (str ''Math''))
       (str ''Math'') = Some 1"
    by code_simp
  have st: "insert_ignore_course id empty_store (str ''Math'') =
      empty_store\<lparr>Course := [\<lparr>c_CourseID = 1, c_CourseName = str ''Math''\<rparr>],
                   next_CourseID := 2\<rparr>"
    by (simp add: insert_ignore_course_def empty_store_def)
  note r = ensure_course_result [of "\<lambda>s name. s" "fetch_course_id id" empty_store "str ''Math''" id]
  from r miss have a: "ensure_course_via (\<lambda>s name. s) (fetch_course_id id) empty_store
       (str ''Math'') = Inl RuntimeError"
    by simp
  from r hit have b: "ensure_course id empty_store (str ''Math'') =
     Inr (1, insert_ignore_course id empty_store (str ''Math''))"
    by auto
  from miss a hit b show ?thesis unfolding st by (intro conjI)
qed

section \<open>The enrollment synchronizer: proofs\<close>

lemma ensure_course_Inr:
  "\<exists>cid. ensure_course coll s c = Inr (cid, insert_ignore_course coll s c) \<and>
         fetch_course_id coll (insert_ignore_course coll s c) c = Some cid"
proof -
  obtain cid where "fetch_course_id coll (insert_ignore_course coll s c) c = Some cid"
    using fetch_after_insert_ignore [of coll s c] by auto
  then show ?thesis by (simp add: ensure_course_def ensure_course_via_def Let_def)
qed

lemma ensure_course_InrD:
  assumes "ensure_course coll s c = Inr (cid, s')"
  shows "s' = insert_ignore_course coll s c" and "fetch_course_id coll s' c = Some cid"
  using assms ensure_course_Inr [of coll s c] by auto

lemma insert_ignore_course_frame:
  "Student (insert_ignore_course coll s c) = Student s"
  "StudentDetails (insert_ignore_course coll s c) = StudentDetails s"
  "StudentCourse (insert_ignore_course coll s c) = StudentCourse s"
  by (simp_all add: insert_ignore_course_def)

lemma insert_ignore_course_grows:
  "\<exists>xs. Course (insert_ignore_course coll s c) = Course s @ xs"
  by (simp add: insert_ignore_course_def)

lemma insert_ignore_enrollment_frame:
  "Student (insert_ignore_enrollment s sid cid) = Student s"
  "StudentDetails (insert_ignore_enrollment s sid cid) = StudentDetails s"
  "Course (insert_ignore_enrollment s sid cid) = Course s"
  "next_CourseID (insert_ignore_enrollment s sid cid) = next_CourseID s"
  by (simp_all add: insert_ignore_enrollment_def)

lemma insert_ignore_enrollment_grows:
  "\<exists>rs. StudentCourse (insert_ignore_enrollment s sid cid) = StudentCourse s @ rs \<and>
        (\<forall>r \<in> set rs. sc_StudentID r = sid)"
  by (simp add: insert_ignore_enrollment_def)

lemma enroll_all_total: "\<exists>s'. enroll_all coll s sid cs = Inr s'"
proof (induction cs arbitrary: s)
  case Nil show ?case by simp
next
  case (Cons c cs)
  obtain cid where "ensure_course coll s c = Inr (cid, insert_ignore_course coll s c)"
    using ensure_course_Inr by blast
  with Cons show ?case by simp
qed

lemma enroll_all_Cons:
  assumes "enroll_all coll s sid (c # cs) = Inr s'"
  obtains cid where "fetch_course_id coll (insert_ignore_course coll s c) c = Some cid"
    and "enroll_all coll (insert_ignore_enrollment (insert_ignore_course coll s c) sid cid) sid cs = Inr s'"
proof -
  obtain cid where e: "ensure_course coll s c = Inr (cid, insert_ignore_course coll s c)"
    and f: "fetch_course_id coll (insert_ignore_course coll s c) c = Some cid"
    using ensure_course_Inr by blast
  from assms e have "enroll_all coll (insert_ignore_enrollment (insert_ignore_course coll s c) sid cid) sid cs = Inr s'"
    by simp
  with f that show ?thesis by blast
qed

lemma enroll_all_frame:
  "enroll_all coll s sid cs = Inr s' \<Longrightarrow>
   Student s' = Student s \<and> StudentDetails s' = StudentDetails s"
proof (induction cs arbitrary: s)
  case Nil then show ?case by simp
next
  case (Cons c cs)
  from Cons.prems obtain cid where
    "enroll_all coll (insert_ignore_enrollment (insert_ignore_course coll s c) sid cid) sid cs = Inr s'"
    by (rule enroll_all_Cons)
  from Cons.IH [OF this] show ?case
    by (simp add: insert_ignore_enrollment_frame insert_ignore_course_frame)
qed

lemma enroll_all_grows:
  "enroll_all coll s sid cs = Inr s' \<Longrightarrow>
   (\<exists>xs. Course s' = Course s @ xs) \<and>
   (\<exists>rs. StudentCourse s' = StudentCourse s @ rs \<and> (\<forall>r \<in> set rs. sc_StudentID r = sid))"
proof (induction cs arbitrary: s)
  case Nil then show ?case by simp
next
  case (Cons c cs)
  let ?u = "insert_ignore_course coll s c"
  from Cons.prems obtain cid where
    run: "enroll_all coll (insert_ignore_enrollment ?u sid cid) sid cs = Inr s'"
    by (rule enroll_all_Cons)
  from Cons.IH [OF run] obtain xs rs where
    1: "Course s' = Course ?u @ xs" and
    2: "StudentCourse s' = StudentCourse (insert_ignore_enrollment ?u sid cid) @ rs" and
    3: "\<forall>r \<in> set rs. sc_StudentID r = sid"
    by (auto simp: insert_ignore_enrollment_frame)
  obtain ys where 4: "Course ?u = Course s @ ys"
    using insert_ignore_course_grows by blast
  obtain qs where 5: "StudentCourse (insert_ignore_enrollment ?u sid cid) = StudentCourse s @ qs"
    and 6: "\<forall>r \<in> set qs. sc_StudentID r = sid"
    using insert_ignore_enrollment_grows [of ?u sid cid]
    by (auto simp: insert_ignore_course_frame)
  from 1 4 have "Course s' = Course s @ (ys @ xs)" by simp
  moreover from 2 5 have "StudentCourse s' = StudentCourse s @ (qs @ rs)" by simp
  moreover from 3 6 have "\<forall>r \<in> set (qs @ rs). sc_StudentID r = sid" by auto
  ultimately show ?case by blast
qed

lemma fetch_course_id_append:
  assumes "Course s' = Course s @ xs" and "fetch_course_id coll s c = Some cid"
  shows "fetch_course_id coll s' c = Some cid"
  using assms by (auto simp: fetch_course_id_def split: list.splits)

lemma set_student_courses_eq:
  "\<exists>s2. enroll_all coll (delete_enrollments s sid) sid (normalize_courses py csv) = Inr s2 \<and>
     set_student_courses py coll s sid csv =
       Inr (update_legacy_courses s2 sid (join_comma (normalize_courses py csv)))"
proof -
  obtain s2 where "enroll_all coll (delete_enrollments s sid) sid (normalize_courses py csv) = Inr s2"
    using enroll_all_total by blast
  then show ?thesis by (simp add: set_student_courses_def)
qed

lemma insert_ignore_course_present:
  assumes "\<exists>r \<in> set (Course s). coll (c_CourseName r) = coll c"
  shows "insert_ignore_course coll s c = s"
  using assms by (simp add: insert_ignore_course_def)

text \<open>A second run of the loop, over the course table the first run has left, inserts no
  course and repeats the enrollments of the first run.\<close>

lemma enroll_all_replay:
  assumes "enroll_all coll u sid cs = Inr u_end"
    and "Course v = Course u_end" and "StudentCourse v = StudentCourse u"
    and "Student v = Student u"
  shows "enroll_all coll v sid cs = Inr (v\<lparr>StudentCourse := StudentCourse u_end\<rparr>)"
  using assms
proof (induction cs arbitrary: u v)
  case Nil
  then show ?case by simp
next
  case (Cons c cs)
  let ?u1 = "insert_ignore_course coll u c"
  from Cons.prems(1) obtain cid where
    f: "fetch_course_id coll ?u1 c = Some cid" and
    run: "enroll_all coll (insert_ignore_enrollment ?u1 sid cid) sid cs = Inr u_end"
    by (rule enroll_all_Cons)
  let ?u2 = "insert_ignore_enrollment ?u1 sid cid"
  from enroll_all_grows [OF run] obtain xs where "Course u_end = Course ?u2 @ xs"
    by blast
  then have ext: "Course v = Course ?u1 @ xs"
    using Cons.prems(2) by (simp add: insert_ignore_enrollment_frame)
  from ext f have fv: "fetch_course_id coll v c = Some cid"
    by (rule fetch_course_id_append)
  then have "\<exists>r \<in> set (Course v). coll (c_CourseName r) = coll c"
    using fetch_course_id_SomeD by blast
  then have same: "insert_ignore_course coll v c = v"
    by (rule insert_ignore_course_present)
  with fv have ens: "ensure_course coll v c = Inr (cid, v)"
    by (simp add: ensure_course_def ensure_course_via_def Let_def)
  from fetch_course_id_SomeD [OF f] have in1: "cid \<in> c_CourseID ` set (Course ?u1)"
    by auto
  with ext have in2: "cid \<in> c_CourseID ` set (Course v)" by auto
  have v2: "insert_ignore_enrollment v sid cid = v\<lparr>StudentCourse := StudentCourse ?u2\<rparr>"
    using in1 in2 Cons.prems(3,4)
    by (simp add: insert_ignore_enrollment_def insert_ignore_course_frame)
  let ?v2 = "v\<lparr>StudentCourse := StudentCourse ?u2\<rparr>"
  have "enroll_all coll ?v2 sid cs = Inr (?v2\<lparr>StudentCourse := StudentCourse u_end\<rparr>)"
  proof (rule Cons.IH [OF run])
    show "Course ?v2 = Course u_end" using Cons.prems(2) by simp
    show "StudentCourse ?v2 = StudentCourse ?u2" by simp
    show "Student ?v2 = Student ?u2"
      using Cons.prems(4) by (simp add: insert_ignore_enrollment_frame insert_ignore_course_frame)
  qed
  with ens v2 show ?case by simp
qed

lemma update_legacy_courses_idem:
  "update_legacy_courses (update_legacy_courses s sid txt) sid txt = update_legacy_courses s sid txt"
  by (simp add: update_legacy_courses_def comp_def if_distrib cong: if_cong)

text \<open>
  Claim C7. The synchronizer is idempotent: \<^verbatim>\<open>set_student_courses\<close> returns, and a second
  call with the same student and the same CSV, in the state the first call has left, leaves
  that state as it is. So the enrollment rows and the legacy field of the student (and
  every other row of the store) are the same after two calls as after one.
\<close>

theorem set_student_courses_idempotent:
  "\<exists>s1. set_student_courses py coll s sid csv = Inr s1 \<and>
         set_student_courses py coll s1 sid csv = Inr s1"
proof -
  let ?cs = "(normalize_courses py) csv"
  let ?txt = "join_comma ?cs"
  let ?u = "delete_enrollments s sid"
  obtain u_end where run: "enroll_all coll ?u sid ?cs = Inr u_end"
    using enroll_all_total by blast
  let ?s1 = "update_legacy_courses u_end sid ?txt"
  have first: "set_student_courses py coll s sid csv = Inr ?s1"
    using run by (simp add: set_student_courses_def)
  let ?v = "delete_enrollments ?s1 sid"
  from enroll_all_grows [OF run] obtain rs where
    sc: "StudentCourse u_end = StudentCourse ?u @ rs" and rs: "\<forall>r \<in> set rs. sc_StudentID r = sid"
    by blast
  from rs have "filter (\<lambda>r. sc_StudentID r \<noteq> sid) rs = []"
    by (simp add: filter_empty_conv)
  with sc have scv: "StudentCourse ?v = StudentCourse ?u"
    by (simp add: delete_enrollments_def update_legacy_courses_def)
  have "enroll_all coll ?v sid ?cs = Inr (?v\<lparr>StudentCourse := StudentCourse u_end\<rparr>)"
  proof (rule enroll_all_replay [OF run])
    show "Course ?v = Course u_end"
      by (simp add: delete_enrollments_def update_legacy_courses_def)
    show "StudentCourse ?v = StudentCourse ?u" by (rule scv)
    show "Student ?v = Student ?u"
      using enroll_all_frame [OF run]
      by (simp add: delete_enrollments_def update_legacy_courses_def)
  qed
  moreover have "?v\<lparr>StudentCourse := StudentCourse u_end\<rparr> = ?s1"
    by (simp add: delete_enrollments_def update_legacy_courses_def)
  ultimately have "set_student_courses py coll ?s1 sid csv =
      Inr (update_legacy_courses ?s1 sid ?txt)"
    by (simp add: set_student_courses_def Let_def)
  then have "set_student_courses py coll ?s1 sid csv = Inr ?s1"
    by (simp only: update_legacy_courses_idem)
  with first show ?thesis by blast
qed

theorem set_student_courses_idempotent_witness:
  "set_student_courses ascii_tables id alice_store 1 (Some (str ''Math, math, Bio'')) = Inr alice_math_store \<and>
   set_student_courses ascii_tables id alice_math_store 1 (Some (str ''Math, math, Bio'')) = Inr alice_math_store"
proof -
  have run: "set_student_courses ascii_tables id alice_store 1 (Some (str ''Math, math, Bio'')) = Inr alice_math_store"
    by code_simp
  with set_student_courses_idempotent [of ascii_tables id alice_store 1 "Some (str ''Math, math, Bio'')"]
  show ?thesis by auto
qed

lemma set_enrolled_ids:
  "set (enrolled_ids s sid) = {cid. \<lparr>sc_StudentID = sid, sc_CourseID = cid\<rparr> \<in> set (StudentCourse s)}"
proof (intro equalityI subsetI)
  fix cid assume "cid \<in> set (enrolled_ids s sid)"
  then obtain r where r: "r \<in> set (StudentCourse s)" "sc_StudentID r = sid" "sc_CourseID r = cid"
    by (auto simp: enrolled_ids_def)
  then have "r = \<lparr>sc_StudentID = sid, sc_CourseID = cid\<rparr>" by simp
  with r(1) show "cid \<in> {cid. \<lparr>sc_StudentID = sid, sc_CourseID = cid\<rparr> \<in> set (StudentCourse s)}"
    by simp
next
  fix cid assume "cid \<in> {cid. \<lparr>sc_StudentID = sid, sc_CourseID = cid\<rparr> \<in> set (StudentCourse s)}"
  then have "\<lparr>sc_StudentID = sid, sc_CourseID = cid\<rparr> \<in> set (filter (\<lambda>r. sc_StudentID r = sid) (StudentCourse s))"
    by simp
  then have "sc_CourseID \<lparr>sc_StudentID = sid, sc_CourseID = cid\<rparr> \<in> set (enrolled_ids s sid)"
    unfolding enrolled_ids_def set_map by (rule imageI)
  then show "cid \<in> set (enrolled_ids s sid)" by simp
qed

lemma set_enrolled_names:
  "set (enrolled_names s sid) =
     {c_CourseName c | c. c \<in> set (Course s) \<and> c_CourseID c \<in> set (enrolled_ids s sid)}"
  by (auto simp: enrolled_names_def enrolled_ids_def)

lemma insert_ignore_course_ids_ok:
  "course_ids_ok s \<Longrightarrow> course_ids_ok (insert_ignore_course coll s c)"
  by (force simp: course_ids_ok_def insert_ignore_course_def)

lemma insert_ignore_enrollment_ids_ok:
  "course_ids_ok s \<Longrightarrow> course_ids_ok (insert_ignore_enrollment s sid cid)"
  by (simp add: course_ids_ok_def insert_ignore_enrollment_def)

lemma enroll_all_ids_ok:
  "enroll_all coll s sid cs = Inr s' \<Longrightarrow> course_ids_ok s \<Longrightarrow> course_ids_ok s'"
proof (induction cs arbitrary: s)
  case Nil then show ?case by simp
next
  case (Cons c cs)
  from Cons.prems(1) obtain cid where
    run: "enroll_all coll (insert_ignore_enrollment (insert_ignore_course coll s c) sid cid) sid cs = Inr s'"
    by (rule enroll_all_Cons)
  from Cons.prems(2) have "course_ids_ok (insert_ignore_enrollment (insert_ignore_course coll s c) sid cid)"
    by (intro insert_ignore_enrollment_ids_ok insert_ignore_course_ids_ok)
  with run show ?case by (rule Cons.IH)
qed

lemma insert_ignore_enrollment_ids:
  assumes "sid \<in> s_StudentID ` set (Student s)" and "cid \<in> c_CourseID ` set (Course s)"
  shows "set (enrolled_ids (insert_ignore_enrollment s sid cid) sid) =
         insert cid (set (enrolled_ids s sid))"
  using assms by (auto simp: set_enrolled_ids insert_ignore_enrollment_def)

lemma enroll_all_ids:
  assumes "enroll_all coll s sid cs = Inr s'" and "sid \<in> s_StudentID ` set (Student s)"
  shows "set (enrolled_ids s' sid) =
         set (enrolled_ids s sid) \<union> {cid. \<exists>c \<in> set cs. fetch_course_id coll s' c = Some cid}"
  using assms
proof (induction cs arbitrary: s)
  case Nil then show ?case by simp
next
  case (Cons c cs)
  let ?u1 = "insert_ignore_course coll s c"
  from Cons.prems(1) obtain cid where
    f: "fetch_course_id coll ?u1 c = Some cid" and
    run: "enroll_all coll (insert_ignore_enrollment ?u1 sid cid) sid cs = Inr s'"
    by (rule enroll_all_Cons)
  let ?u2 = "insert_ignore_enrollment ?u1 sid cid"
  have st: "sid \<in> s_StudentID ` set (Student ?u1)"
    using Cons.prems(2) by (simp add: insert_ignore_course_frame)
  from fetch_course_id_SomeD [OF f] have "cid \<in> c_CourseID ` set (Course ?u1)" by auto
  with st have ids2: "set (enrolled_ids ?u2 sid) = insert cid (set (enrolled_ids ?u1 sid))"
    by (rule insert_ignore_enrollment_ids)
  have ids1: "set (enrolled_ids ?u1 sid) = set (enrolled_ids s sid)"
    by (simp add: enrolled_ids_def insert_ignore_course_frame)
  from st have "sid \<in> s_StudentID ` set (Student ?u2)"
    by (simp add: insert_ignore_enrollment_frame)
  with run have ih: "set (enrolled_ids s' sid) =
      set (enrolled_ids ?u2 sid) \<union> {cid. \<exists>c \<in> set cs. fetch_course_id coll s' c = Some cid}"
    by (rule Cons.IH)
  from enroll_all_grows [OF run] obtain xs where "Course s' = Course ?u1 @ xs"
    by (auto simp: insert_ignore_enrollment_frame)
  then have "fetch_course_id coll s' c = Some cid"
    using f by (rule fetch_course_id_append)
  with ih ids2 ids1 show ?case by auto
qed

lemma enroll_all_fetch:
  assumes "enroll_all coll s sid cs = Inr s'" and "c \<in> set cs"
  shows "fetch_course_id coll s' c \<noteq> None"
  using assms
proof (induction cs arbitrary: s)
  case Nil then show ?case by simp
next
  case (Cons a cs)
  let ?u1 = "insert_ignore_course coll s a"
  from Cons.prems(1) obtain cid where
    f: "fetch_course_id coll ?u1 a = Some cid" and
    run: "enroll_all coll (insert_ignore_enrollment ?u1 sid cid) sid cs = Inr s'"
    by (rule enroll_all_Cons)
  show ?case
  proof (cases "c = a")
    case True
    from enroll_all_grows [OF run] obtain xs where "Course s' = Course ?u1 @ xs"
      by (auto simp: insert_ignore_enrollment_frame)
    then have "fetch_course_id coll s' a = Some cid"
      using f by (rule fetch_course_id_append)
    with True show ?thesis by simp
  next
    case False
    with Cons.prems(2) have "c \<in> set cs" by simp
    with run show ?thesis by (rule Cons.IH)
  qed
qed

lemma delete_enrollments_ids: "enrolled_ids (delete_enrollments s sid) sid = []"
  by (simp add: enrolled_ids_def delete_enrollments_def filter_empty_conv)

lemma update_legacy_courses_frame:
  "Student (update_legacy_courses s sid txt) = Student s"
  "Course (update_legacy_courses s sid txt) = Course s"
  "StudentCourse (update_legacy_courses s sid txt) = StudentCourse s"
  "next_CourseID (update_legacy_courses s sid txt) = next_CourseID s"
  by (simp_all add: update_legacy_courses_def)

lemma update_legacy_courses_derived:
  "enrolled_ids (update_legacy_courses s sid txt) i = enrolled_ids s i"
  "enrolled_names (update_legacy_courses s sid txt) i = enrolled_names s i"
  "fetch_course_id coll (update_legacy_courses s sid txt) c = fetch_course_id coll s c"
  "course_ids_ok (update_legacy_courses s sid txt) = course_ids_ok s"
  by (simp_all add: enrolled_ids_def enrolled_names_def fetch_course_id_def course_ids_ok_def
      update_legacy_courses_frame)

lemma names_of_ids:
  assumes ok: "course_ids_ok s"
    and ids: "set (enrolled_ids s sid) = {cid. \<exists>c \<in> set cs. fetch_course_id coll s c = Some cid}"
    and found: "\<forall>c \<in> set cs. fetch_course_id coll s c \<noteq> None"
  shows "coll ` set (enrolled_names s sid) = coll ` set cs"
proof (intro equalityI subsetI)
  fix k assume "k \<in> coll ` set (enrolled_names s sid)"
  then obtain r where r: "r \<in> set (Course s)" "c_CourseID r \<in> set (enrolled_ids s sid)"
    and k: "k = coll (c_CourseName r)"
    by (auto simp: set_enrolled_names)
  from r(2) ids obtain c where c: "c \<in> set cs" "fetch_course_id coll s c = Some (c_CourseID r)"
    by auto
  from fetch_course_id_SomeD [OF c(2)] obtain r' where
    r': "r' \<in> set (Course s)" "c_CourseID r' = c_CourseID r" "coll (c_CourseName r') = coll c"
    by auto
  from ok have "inj_on c_CourseID (set (Course s))"
    by (simp add: course_ids_ok_def distinct_map)
  with r(1) r'(1,2) have "r' = r" by (auto dest: inj_onD)
  with r'(3) k c(1) show "k \<in> coll ` set cs" by auto
next
  fix k assume "k \<in> coll ` set cs"
  then obtain c where c: "c \<in> set cs" "k = coll c" by auto
  with found obtain cid where f: "fetch_course_id coll s c = Some cid" by auto
  from fetch_course_id_SomeD [OF f] obtain r where
    r: "r \<in> set (Course s)" "c_CourseID r = cid" "coll (c_CourseName r) = coll c"
    by auto
  from f c(1) ids have "cid \<in> set (enrolled_ids s sid)" by auto
  with r have "c_CourseName r \<in> set (enrolled_names s sid)"
    by (auto simp: set_enrolled_names)
  with r(3) c(2) show "k \<in> coll ` set (enrolled_names s sid)" by (metis imageI)
qed

lemma update_legacy_courses_details:
  "\<forall>d \<in> set (StudentDetails (update_legacy_courses s sid txt)).
     d_StudentID d = sid \<longrightarrow> d_CourseS d = Some txt"
  by (simp add: update_legacy_courses_def ball_Un)

lemma insert_ignore_enrollment_absent:
  "sid \<notin> s_StudentID ` set (Student s) \<Longrightarrow> insert_ignore_enrollment s sid cid = s"
  by (simp add: insert_ignore_enrollment_def)

lemma enroll_all_absent:
  assumes "enroll_all coll s sid cs = Inr s'" and "sid \<notin> s_StudentID ` set (Student s)"
  shows "StudentCourse s' = StudentCourse s"
  using assms
proof (induction cs arbitrary: s)
  case Nil then show ?case by simp
next
  case (Cons c cs)
  let ?u1 = "insert_ignore_course coll s c"
  from Cons.prems(1) obtain cid where
    run: "enroll_all coll (insert_ignore_enrollment ?u1 sid cid) sid cs = Inr s'"
    by (rule enroll_all_Cons)
  from Cons.prems(2) have ab: "sid \<notin> s_StudentID ` set (Student ?u1)"
    by (simp add: insert_ignore_course_frame)
  then have same: "insert_ignore_enrollment ?u1 sid cid = ?u1"
    by (rule insert_ignore_enrollment_absent)
  from run ab have "StudentCourse s' = StudentCourse ?u1"
    unfolding same by (rule Cons.IH)
  then show ?case by (simp add: insert_ignore_course_frame)
qed

text \<open>
  Claim C1, as amended. For every identifier and every raw CSV, \<^verbatim>\<open>set_student_courses\<close>
  returns, and its result is that of this sequence: normalize the CSV; delete the
  enrollment rows of the student; for each normalized name in turn ensure the course and
  insert the pair with insert-or-ignore (the loop \<open>enroll_all\<close>); write the comma-joined
  normalized list into the legacy field of the student's details rows. Afterwards every
  normalized name is a course of the store. When the identifier names a row of Student,
  the student is enrolled in exactly the courses the store holds for the normalized
  names, whatever the enrollments were before; by name, when CourseID is a key, the names
  of the student's courses are the normalized names up to the store's comparison of
  names, and exactly the normalized names when the store compares names by exact string.
  When no row of Student has the identifier, the store drops every pair (the foreign key
  of StudentCourse, under \<^verbatim>\<open>INSERT IGNORE\<close>) and the identifier has no enrollment row
  afterwards.
\<close>

theorem set_student_courses_replaces:
  "\<exists>s2 s'.
     enroll_all coll (delete_enrollments s student_id) student_id (normalize_courses py csv) = Inr s2 \<and>
     s' = update_legacy_courses s2 student_id (join_comma (normalize_courses py csv)) \<and>
     set_student_courses py coll s student_id csv = Inr s' \<and>
     (\<forall>c \<in> set (normalize_courses py csv). fetch_course_id coll s' c \<noteq> None) \<and>
     (\<forall>d \<in> set (StudentDetails s'). d_StudentID d = student_id \<longrightarrow>
        d_CourseS d = Some (join_comma (normalize_courses py csv))) \<and>
     (student_id \<in> s_StudentID ` set (Student s) \<longrightarrow>
        set (enrolled_ids s' student_id) =
          {cid. \<exists>c \<in> set (normalize_courses py csv). fetch_course_id coll s' c = Some cid} \<and>
        (course_ids_ok s \<longrightarrow>
           coll ` set (enrolled_names s' student_id) = coll ` set (normalize_courses py csv)) \<and>
        (course_ids_ok s \<longrightarrow> inj coll \<longrightarrow>
           set (enrolled_names s' student_id) = set (normalize_courses py csv))) \<and>
     (student_id \<notin> s_StudentID ` set (Student s) \<longrightarrow>
        enrolled_ids s' student_id = [] \<and> enrolled_names s' student_id = [])"
proof -
  let ?cs = "normalize_courses py csv"
  let ?u = "delete_enrollments s student_id"
  obtain s2 where run: "enroll_all coll ?u student_id ?cs = Inr s2"
    using enroll_all_total by blast
  let ?s' = "update_legacy_courses s2 student_id (join_comma ?cs)"
  have res: "set_student_courses py coll s student_id csv = Inr ?s'"
    using run by (simp add: set_student_courses_def Let_def)
  have found: "\<forall>c \<in> set ?cs. fetch_course_id coll ?s' c \<noteq> None"
    using enroll_all_fetch [OF run] by (simp add: update_legacy_courses_derived)
  have legacy: "\<forall>d \<in> set (StudentDetails ?s'). d_StudentID d = student_id \<longrightarrow>
        d_CourseS d = Some (join_comma ?cs)"
    by (rule update_legacy_courses_details)
  have present: "set (enrolled_ids ?s' student_id) =
          {cid. \<exists>c \<in> set ?cs. fetch_course_id coll ?s' c = Some cid} \<and>
        (course_ids_ok s \<longrightarrow>
           coll ` set (enrolled_names ?s' student_id) = coll ` set ?cs) \<and>
        (course_ids_ok s \<longrightarrow> inj coll \<longrightarrow>
           set (enrolled_names ?s' student_id) = set ?cs)"
    if student: "student_id \<in> s_StudentID ` set (Student s)"
  proof -
    have "student_id \<in> s_StudentID ` set (Student ?u)"
      using student by (simp add: delete_enrollments_def)
    with run have "set (enrolled_ids s2 student_id) =
        set (enrolled_ids ?u student_id) \<union> {cid. \<exists>c \<in> set ?cs. fetch_course_id coll s2 c = Some cid}"
      by (rule enroll_all_ids)
    then have ids: "set (enrolled_ids ?s' student_id) =
        {cid. \<exists>c \<in> set ?cs. fetch_course_id coll ?s' c = Some cid}"
      by (simp add: delete_enrollments_ids update_legacy_courses_derived)
    have names: "coll ` set (enrolled_names ?s' student_id) = coll ` set ?cs" if ok: "course_ids_ok s"
    proof -
      from ok have "course_ids_ok ?u" by (simp add: course_ids_ok_def delete_enrollments_def)
      with run have "course_ids_ok s2" by (rule enroll_all_ids_ok)
      then have "course_ids_ok ?s'" by (simp add: update_legacy_courses_derived)
      then show ?thesis using ids found
        by (rule names_of_ids [where coll = coll and cs = "normalize_courses py csv"])
    qed
    have exact: "set (enrolled_names ?s' student_id) = set ?cs" if "course_ids_ok s" "inj coll"
      using names [OF that(1)] by (simp only: inj_image_eq_iff [OF that(2)])
    from names have names': "course_ids_ok s \<longrightarrow>
          coll ` set (enrolled_names ?s' student_id) = coll ` set ?cs" by (rule impI)
    from exact have exact': "course_ids_ok s \<longrightarrow> inj coll \<longrightarrow>
          set (enrolled_names ?s' student_id) = set ?cs" by (intro impI)
    show ?thesis by (intro conjI) (rule ids names' exact')+
  qed
  have absent: "enrolled_ids ?s' student_id = [] \<and> enrolled_names ?s' student_id = []"
    if nostudent: "student_id \<notin> s_StudentID ` set (Student s)"
  proof -
    have "student_id \<notin> s_StudentID ` set (Student ?u)"
      using nostudent by (simp add: delete_enrollments_def)
    with run have "StudentCourse s2 = StudentCourse ?u" by (rule enroll_all_absent)
    then have "filter (\<lambda>r. sc_StudentID r = student_id) (StudentCourse ?s') = []"
      by (simp add: update_legacy_courses_frame delete_enrollments_def filter_empty_conv)
    then show ?thesis by (simp add: enrolled_ids_def enrolled_names_def)
  qed
  from present have present': "student_id \<in> s_StudentID ` set (Student s) \<longrightarrow>
        set (enrolled_ids ?s' student_id) =
          {cid. \<exists>c \<in> set ?cs. fetch_course_id coll ?s' c = Some cid} \<and>
        (course_ids_ok s \<longrightarrow>
           coll ` set (enrolled_names ?s' student_id) = coll ` set ?cs) \<and>
        (course_ids_ok s \<longrightarrow> inj coll \<longrightarrow>
           set (enrolled_names ?s' student_id) = set ?cs)"
    by (rule impI)
  from absent have absent': "student_id \<notin> s_StudentID ` set (Student s) \<longrightarrow>
        enrolled_ids ?s' student_id = [] \<and> enrolled_names ?s' student_id = []"
    by (rule impI)
  show ?thesis
    by (intro exI [of _ s2] exI [of _ ?s'] conjI)
      (rule run refl res found legacy present' absent')+
qed

theorem set_student_courses_replaces_witness:
  "1 \<in> s_StudentID ` set (Student alice_store) \<and> course_ids_ok alice_store \<and>
   set_student_courses ascii_tables id alice_store 1 (Some (str ''Math, math, Bio'')) =
     Inr alice_math_store \<and>
   set (enrolled_names alice_math_store 1) = {str ''Math'', str ''Bio''} \<and>
   set (enrolled_ids alice_math_store 1) = {3, 1}"
proof -
  have st: "1 \<in> s_StudentID ` set (Student alice_store)" by code_simp
  have ok: "course_ids_ok alice_store" by code_simp
  have run: "set_student_courses ascii_tables id alice_store 1 (Some (str ''Math, math, Bio'')) =
      Inr alice_math_store"
    by code_simp
  have n: "normalize_courses ascii_tables (Some (str ''Math, math, Bio'')) = [str ''Math'', str ''Bio'']"
    by code_simp
  have f: "fetch_course_id id alice_math_store (str ''Math'') = Some 3"
    "fetch_course_id id alice_math_store (str ''Bio'') = Some 1" by code_simp+
  from set_student_courses_replaces [of id alice_store 1 ascii_tables "Some (str ''Math, math, Bio'')"]
    run ok st
  have "set (enrolled_names alice_math_store 1) =
      set (normalize_courses ascii_tables (Some (str ''Math, math, Bio'')))"
    and "set (enrolled_ids alice_math_store 1) =
       {cid. \<exists>c \<in> set (normalize_courses ascii_tables (Some (str ''Math, math, Bio''))).
          fetch_course_id id alice_math_store c = Some cid}"
    by auto
  with n f have "set (enrolled_names alice_math_store 1) = {str ''Math'', str ''Bio''}"
    and "set (enrolled_ids alice_math_store 1) = {3, 1}"
    by auto
  with st ok run show ?thesis by simp
qed

text \<open>
  The claim as first stated, for every identifier, fails at an identifier that no row of
  Student has: on the empty store \<^verbatim>\<open>set_student_courses(99, "Math")\<close> creates the course
  Math, the store drops the enrollment pair, and the identifier 99 ends with no enrollment
  while the normalized list is \<^verbatim>\<open>["Math"]\<close>.
\<close>

theorem set_student_courses_absent_student_counterexample:
  "99 \<notin> s_StudentID ` set (Student empty_store) \<and>
   set_student_courses ascii_tables id empty_store 99 (Some (str ''Math'')) = Inr math_only_store \<and>
   normalize_courses ascii_tables (Some (str ''Math'')) = [str ''Math''] \<and>
   enrolled_ids math_only_store 99 = [] \<and>
   set (enrolled_names math_only_store 99) \<noteq>
     set (normalize_courses ascii_tables (Some (str ''Math'')))"
proof -
  have 1: "99 \<notin> s_StudentID ` set (Student empty_store)" by code_simp
  have 2: "set_student_courses ascii_tables id empty_store 99 (Some (str ''Math'')) =
      Inr math_only_store" by code_simp
  have 3: "normalize_courses ascii_tables (Some (str ''Math'')) = [str ''Math'']" by code_simp
  have 4: "enrolled_ids math_only_store 99 = []" by code_simp
  have 5: "enrolled_names math_only_store 99 = []" by code_simp
  have 6: "set (enrolled_names math_only_store 99) \<noteq>
     set (normalize_courses ascii_tables (Some (str ''Math'')))"
    unfolding 3 5 by simp
  show ?thesis by (intro conjI) (rule 1 2 3 4 6)+
qed

section \<open>Student details: proofs\<close>

lemma ball_map_if:
  "(\<forall>y \<in> set (map (\<lambda>x. if c x then f x else x) xs). Q y) \<longleftrightarrow>
   (\<forall>x \<in> set xs. (c x \<longrightarrow> Q (f x)) \<and> (\<not> c x \<longrightarrow> Q x))"
  by (induction xs) simp_all

lemma insert_or_update_details_result:
  assumes "insert_or_update_details s sid phone csv = Inr s1"
  shows "(\<exists>d \<in> set (StudentDetails s1). d_StudentID d = sid) \<and>
         (\<forall>d \<in> set (StudentDetails s1). d_StudentID d = sid \<longrightarrow>
            d_PhoneNumber d = phone \<and> d_CourseS d = csv)"
proof (cases "\<exists>d \<in> set (StudentDetails s). d_StudentID d = sid")
  case True
  then obtain d0 where d0: "d0 \<in> set (StudentDetails s)" "d_StudentID d0 = sid" by blast
  let ?f = "\<lambda>d. if d_StudentID d = sid then d\<lparr>d_PhoneNumber := phone, d_CourseS := csv\<rparr> else d"
  from True assms have s1: "StudentDetails s1 = map ?f (StudentDetails s)"
    by (auto simp: insert_or_update_details_def)
  from d0 have "?f d0 \<in> set (StudentDetails s1)" unfolding s1 set_map by (intro imageI)
  moreover from d0 have "d_StudentID (?f d0) = sid" by simp
  ultimately have ex: "\<exists>d \<in> set (StudentDetails s1). d_StudentID d = sid" by (rule bexI [rotated])
  have "\<forall>d \<in> set (map ?f (StudentDetails s)). d_StudentID d = sid \<longrightarrow>
            d_PhoneNumber d = phone \<and> d_CourseS d = csv"
    unfolding ball_map_if by simp
  then have "\<forall>d \<in> set (StudentDetails s1). d_StudentID d = sid \<longrightarrow>
            d_PhoneNumber d = phone \<and> d_CourseS d = csv"
    unfolding s1 .
  with ex show ?thesis by (rule conjI)
next
  case False
  with assms have "StudentDetails s1 = StudentDetails s @
      [\<lparr>d_StudentID = sid, d_PhoneNumber = phone, d_CourseS = csv\<rparr>]"
    by (auto simp: insert_or_update_details_def split: if_splits)
  with False show ?thesis by auto
qed

lemma update_legacy_courses_keeps:
  assumes "\<exists>d \<in> set (StudentDetails s). d_StudentID d = sid"
    and "\<forall>d \<in> set (StudentDetails s). d_StudentID d = sid \<longrightarrow> d_PhoneNumber d = phone"
  shows "(\<exists>d \<in> set (StudentDetails (update_legacy_courses s sid txt)). d_StudentID d = sid) \<and>
     (\<forall>d \<in> set (StudentDetails (update_legacy_courses s sid txt)).
        d_StudentID d = sid \<longrightarrow> d_PhoneNumber d = phone \<and> d_CourseS d = Some txt)"
proof -
  let ?f = "\<lambda>d. if d_StudentID d = sid then d\<lparr>d_CourseS := Some txt\<rparr> else d"
  have s1: "StudentDetails (update_legacy_courses s sid txt) = map ?f (StudentDetails s)"
    by (simp add: update_legacy_courses_def)
  from assms(1) obtain d0 where d0: "d0 \<in> set (StudentDetails s)" "d_StudentID d0 = sid" by blast
  from d0 have "?f d0 \<in> set (map ?f (StudentDetails s))" unfolding set_map by (intro imageI)
  moreover from d0 have "d_StudentID (?f d0) = sid" by simp
  ultimately have "\<exists>d \<in> set (map ?f (StudentDetails s)). d_StudentID d = sid"
    by (rule bexI [rotated])
  moreover from assms(2) have "\<forall>d \<in> set (map ?f (StudentDetails s)). d_StudentID d = sid \<longrightarrow>
            d_PhoneNumber d = phone \<and> d_CourseS d = Some txt"
    unfolding ball_map_if by simp
  ultimately show ?thesis unfolding s1 by (rule conjI)
qed

lemma set_student_courses_details:
  assumes "set_student_courses py coll s sid csv = Inr s'"
  shows "StudentDetails s' =
     StudentDetails (update_legacy_courses s sid (join_comma (normalize_courses py csv)))"
proof -
  obtain s2 where run: "enroll_all coll (delete_enrollments s sid) sid (normalize_courses py csv) = Inr s2"
    and res: "set_student_courses py coll s sid csv =
       Inr (update_legacy_courses s2 sid (join_comma (normalize_courses py csv)))"
    using set_student_courses_eq by blast
  from enroll_all_frame [OF run] have "StudentDetails s2 = StudentDetails s"
    by (simp add: delete_enrollments_def)
  moreover from assms res have "s' = update_legacy_courses s2 sid (join_comma (normalize_courses py csv))"
    by simp
  ultimately show ?thesis by (simp add: update_legacy_courses_def)
qed

lemma set_student_courses_ascii:
  assumes "python_on_ascii py" and "ascii_text x"
  shows "set_student_courses py coll s sid (Some x) =
         set_student_courses ascii_tables coll s sid (Some x)"
  by (simp only: set_student_courses_def normalize_ascii [OF assms])

lemma insert_student_ascii:
  assumes "python_on_ascii py" and "ascii_text x"
  shows "insert_student py coll s sid name age email phone (Some x) =
         insert_student ascii_tables coll s sid name age email phone (Some x)"
  by (simp only: insert_student_def upsert_student_details_def
      set_student_courses_ascii [OF assms])

text \<open>
  Claim C6. When \<^verbatim>\<open>upsert_student_details\<close> completes, the upsert statement has first
  left a details row of the student holding the phone number and the raw CSV; then
  \<^verbatim>\<open>set_student_courses\<close> has run in that state, and in the final state the student has a
  details row, and every details row of the student holds the given phone number and the
  comma-joined normalized list: the legacy field is written twice and the normalized write
  is the one that stays. On an empty store,
  \<^verbatim>\<open>insert_student(1, "Alice", 20, "a@x.com", "555-1234", "Bio, bio, Chem")\<close> completes and
  \<^verbatim>\<open>get_student(1)\<close> then reports Courses \<^verbatim>\<open>"Bio, Chem"\<close> and PhoneNumber \<^verbatim>\<open>"555-1234"\<close>,
  under exact and under case-insensitive comparison of course names, with Unicode tables
  that do on ASCII text what Python's do.
\<close>

theorem upsert_student_details_final:
  "(upsert_student_details py coll s student_id phone courses_csv = Inr s' \<longrightarrow>
      (\<exists>s1. insert_or_update_details s student_id phone courses_csv = Inr s1 \<and>
         (\<exists>d \<in> set (StudentDetails s1). d_StudentID d = student_id) \<and>
         (\<forall>d \<in> set (StudentDetails s1). d_StudentID d = student_id \<longrightarrow>
            d_PhoneNumber d = phone \<and> d_CourseS d = courses_csv) \<and>
         set_student_courses py coll s1 student_id courses_csv = Inr s') \<and>
      (\<exists>d \<in> set (StudentDetails s'). d_StudentID d = student_id) \<and>
      (\<forall>d \<in> set (StudentDetails s'). d_StudentID d = student_id \<longrightarrow>
         d_PhoneNumber d = phone \<and>
         d_CourseS d = Some (join_comma (normalize_courses py courses_csv)))) \<and>
   (python_on_ascii py \<longrightarrow>
      insert_student py id empty_store 1 (str ''Alice'') 20 (str ''a@x.com'') (str ''555-1234'')
          (Some (str ''Bio, bio, Chem'')) = Inr alice_store \<and>
      insert_student py ascii_ci empty_store 1 (str ''Alice'') 20 (str ''a@x.com'')
          (str ''555-1234'') (Some (str ''Bio, bio, Chem'')) = Inr alice_store) \<and>
   get_student id alice_store 1 = Some alice_view \<and>
   get_student ascii_ci alice_store 1 = Some alice_view \<and>
   Courses alice_view = Some (str ''Bio, Chem'') \<and> PhoneNumber alice_view = Some (str ''555-1234'')"
proof -
  have general: "(\<exists>s1. insert_or_update_details s student_id phone courses_csv = Inr s1 \<and>
         (\<exists>d \<in> set (StudentDetails s1). d_StudentID d = student_id) \<and>
         (\<forall>d \<in> set (StudentDetails s1). d_StudentID d = student_id \<longrightarrow>
            d_PhoneNumber d = phone \<and> d_CourseS d = courses_csv) \<and>
         set_student_courses py coll s1 student_id courses_csv = Inr s') \<and>
      (\<exists>d \<in> set (StudentDetails s'). d_StudentID d = student_id) \<and>
      (\<forall>d \<in> set (StudentDetails s'). d_StudentID d = student_id \<longrightarrow>
         d_PhoneNumber d = phone \<and>
         d_CourseS d = Some (join_comma (normalize_courses py courses_csv)))"
    if up: "upsert_student_details py coll s student_id phone courses_csv = Inr s'"
  proof -
    from up obtain s1 where ins: "insert_or_update_details s student_id phone courses_csv = Inr s1"
      and sync: "set_student_courses py coll s1 student_id courses_csv = Inr s'"
      by (auto simp: upsert_student_details_def split: sum.splits)
    note r = insert_or_update_details_result [OF ins]
    from r have ph: "\<forall>d \<in> set (StudentDetails s1). d_StudentID d = student_id \<longrightarrow> d_PhoneNumber d = phone"
      by blast
    from r have ex: "\<exists>d \<in> set (StudentDetails s1). d_StudentID d = student_id" by blast
    note k = update_legacy_courses_keeps [OF ex ph, of "join_comma (normalize_courses py courses_csv)"]
    note d = set_student_courses_details [OF sync]
    from k have fin: "(\<exists>d \<in> set (StudentDetails s'). d_StudentID d = student_id) \<and>
      (\<forall>d \<in> set (StudentDetails s'). d_StudentID d = student_id \<longrightarrow>
         d_PhoneNumber d = phone \<and>
         d_CourseS d = Some (join_comma (normalize_courses py courses_csv)))"
      unfolding d .
    from ins r sync have "\<exists>s1. insert_or_update_details s student_id phone courses_csv = Inr s1 \<and>
         (\<exists>d \<in> set (StudentDetails s1). d_StudentID d = student_id) \<and>
         (\<forall>d \<in> set (StudentDetails s1). d_StudentID d = student_id \<longrightarrow>
            d_PhoneNumber d = phone \<and> d_CourseS d = courses_csv) \<and>
         set_student_courses py coll s1 student_id courses_csv = Inr s'"
      by (intro exI [of _ s1] conjI) simp_all
    with fin show ?thesis by (rule conjI [rotated])
  qed
  have a: "ascii_text (str ''Bio, bio, Chem'')" by code_simp
  have 1: "insert_student ascii_tables id empty_store 1 (str ''Alice'') 20 (str ''a@x.com'')
       (str ''555-1234'') (Some (str ''Bio, bio, Chem'')) = Inr alice_store"
    by code_simp
  have 2: "insert_student ascii_tables ascii_ci empty_store 1 (str ''Alice'') 20 (str ''a@x.com'')
       (str ''555-1234'') (Some (str ''Bio, bio, Chem'')) = Inr alice_store"
    by code_simp
  have 12: "python_on_ascii py \<longrightarrow>
      insert_student py id empty_store 1 (str ''Alice'') 20 (str ''a@x.com'') (str ''555-1234'')
          (Some (str ''Bio, bio, Chem'')) = Inr alice_store \<and>
      insert_student py ascii_ci empty_store 1 (str ''Alice'') 20 (str ''a@x.com'')
          (str ''555-1234'') (Some (str ''Bio, bio, Chem'')) = Inr alice_store"
  proof
    assume py: "python_on_ascii py"
    show "insert_student py id empty_store 1 (str ''Alice'') 20 (str ''a@x.com'') (str ''555-1234'')
          (Some (str ''Bio, bio, Chem'')) = Inr alice_store \<and>
      insert_student py ascii_ci empty_store 1 (str ''Alice'') 20 (str ''a@x.com'')
          (str ''555-1234'') (Some (str ''Bio, bio, Chem'')) = Inr alice_store"
      unfolding insert_student_ascii [OF py a] by (intro conjI) (rule 1 2)+
  qed
  have 3: "get_student id alice_store 1 = Some alice_view" by code_simp
  have 4: "get_student ascii_ci alice_store 1 = Some alice_view" by code_simp
  have 5: "Courses alice_view = Some (str ''Bio, Chem'')" "PhoneNumber alice_view = Some (str ''555-1234'')"
    by (simp_all add: alice_view_def)
  from general have g: "upsert_student_details py coll s student_id phone courses_csv = Inr s' \<longrightarrow>
      (\<exists>s1. insert_or_update_details s student_id phone courses_csv = Inr s1 \<and>
         (\<exists>d \<in> set (StudentDetails s1). d_StudentID d = student_id) \<and>
         (\<forall>d \<in> set (StudentDetails s1). d_StudentID d = student_id \<longrightarrow>
            d_PhoneNumber d = phone \<and> d_CourseS d = courses_csv) \<and>
         set_student_courses py coll s1 student_id courses_csv = Inr s') \<and>
      (\<exists>d \<in> set (StudentDetails s'). d_StudentID d = student_id) \<and>
      (\<forall>d \<in> set (StudentDetails s'). d_StudentID d = student_id \<longrightarrow>
         d_PhoneNumber d = phone \<and>
         d_CourseS d = Some (join_comma (normalize_courses py courses_csv)))"
    by (rule impI)
  show ?thesis
    by (intro conjI) (rule g 12 3 4 5)+
qed

theorem upsert_student_details_final_witness:
  "upsert_student_details ascii_tables id alice_store 1 (str ''555-1234'') (Some (str ''Math, math, Bio'')) =
     Inr alice_math_store \<and>
   (\<exists>d \<in> set (StudentDetails alice_math_store).
      d_StudentID d = 1 \<and> d_PhoneNumber d = (str ''555-1234'') \<and> d_CourseS d = Some (str ''Math, Bio''))"
proof -
  have up: "upsert_student_details ascii_tables id alice_store 1 (str ''555-1234'') (Some (str ''Math, math, Bio'')) =
     Inr alice_math_store"
    by code_simp
  have n: "join_comma ((normalize_courses ascii_tables) (Some (str ''Math, math, Bio''))) = (str ''Math, Bio'')"
    by code_simp
  from upsert_student_details_final
    [of ascii_tables id alice_store 1 "str ''555-1234''" "Some (str ''Math, math, Bio'')" alice_math_store] up
  have "(\<exists>d \<in> set (StudentDetails alice_math_store). d_StudentID d = 1)" and
    "(\<forall>d \<in> set (StudentDetails alice_math_store). d_StudentID d = 1 \<longrightarrow>
         d_PhoneNumber d = (str ''555-1234'') \<and>
         d_CourseS d = Some (join_comma ((normalize_courses ascii_tables) (Some (str ''Math, math, Bio'')))))"
    by blast+
  then have "\<exists>d \<in> set (StudentDetails alice_math_store).
      d_StudentID d = 1 \<and> d_PhoneNumber d = (str ''555-1234'') \<and> d_CourseS d = Some (str ''Math, Bio'')"
    unfolding n by blast
  with up show ?thesis by (rule conjI)
qed

section \<open>The queries: proofs\<close>

lemma remdups_block:
  "set ys = {a} \<Longrightarrow> a \<notin> set zs \<Longrightarrow> remdups (ys @ zs) = a # remdups zs"
proof (induction ys)
  case Nil then show ?case by simp
next
  case (Cons y ys)
  from Cons.prems(1) have y: "y = a" by auto
  show ?case
  proof (cases "ys = []")
    case True
    show ?thesis unfolding True y using Cons.prems(2) by simp
  next
    case False
    with Cons.prems(1) have ys: "set ys = {a}" by (cases ys) auto
    then have ih: "remdups (ys @ zs) = a # remdups zs"
      using Cons.prems(2) by (rule Cons.IH)
    from ys have "a \<in> set (ys @ zs)" by simp
    then have "remdups (a # (ys @ zs)) = remdups (ys @ zs)" by simp
    with ih show ?thesis unfolding y by simp
  qed
qed

lemma group_rows_Nil: "group_rows key [] = []"
  by (simp add: group_rows_def)

lemma group_rows_block:
  assumes ne: "b \<noteq> []" and kb: "\<forall>r \<in> set b. key r = k" and kr: "\<forall>r \<in> set rest. key r \<noteq> k"
  shows "group_rows key (b @ rest) = (k, b) # group_rows key rest"
proof -
  have 1: "remdups (map key b @ map key rest) = k # remdups (map key rest)"
  proof (rule remdups_block)
    from ne obtain r where "r \<in> set b" by (cases b) auto
    with kb show "set (map key b) = {k}" by auto
    show "k \<notin> set (map key rest)" using kr by auto
  qed
  have 2: "filter (\<lambda>r. key r = k) b = b" using kb by (intro filter_True) simp
  have 3: "filter (\<lambda>r. key r = k) rest = []" using kr by (simp add: filter_empty_conv)
  have 4: "map (\<lambda>k'. (k', filter (\<lambda>r. key r = k') (b @ rest))) (remdups (map key rest)) =
           map (\<lambda>k'. (k', filter (\<lambda>r. key r = k') rest)) (remdups (map key rest))"
  proof (rule map_cong [OF refl])
    fix k' assume "k' \<in> set (remdups (map key rest))"
    then have "k' \<noteq> k" using kr by auto
    with kb have "filter (\<lambda>r. key r = k') b = []" by (simp add: filter_empty_conv)
    then show "(k', filter (\<lambda>r. key r = k') (b @ rest)) = (k', filter (\<lambda>r. key r = k') rest)"
      by simp
  qed
  have "group_rows key (b @ rest) =
        map (\<lambda>k'. (k', filter (\<lambda>r. key r = k') (b @ rest))) (k # remdups (map key rest))"
    by (simp only: group_rows_def map_append 1)
  also have "\<dots> = (k, filter (\<lambda>r. key r = k) (b @ rest)) #
        map (\<lambda>k'. (k', filter (\<lambda>r. key r = k') (b @ rest))) (remdups (map key rest))"
    by (simp only: list.map)
  also have "\<dots> = (k, b) # map (\<lambda>k'. (k', filter (\<lambda>r. key r = k') rest)) (remdups (map key rest))"
    unfolding 4 by (simp only: filter_append 2 3 append_Nil2)
  also have "\<dots> = (k, b) # group_rows key rest"
    by (simp only: group_rows_def)
  finally show ?thesis .
qed

lemma group_rows_concat:
  assumes "distinct (map g xs)"
    and "\<forall>x \<in> set xs. f x \<noteq> [] \<and> (\<forall>r \<in> set (f x). key r = g x)"
  shows "group_rows key (concat (map f xs)) = map (\<lambda>x. (g x, f x)) xs"
  using assms
proof (induction xs)
  case Nil show ?case by (simp add: group_rows_Nil)
next
  case (Cons x xs)
  have "group_rows key (f x @ concat (map f xs)) = (g x, f x) # group_rows key (concat (map f xs))"
  proof (rule group_rows_block)
    show "f x \<noteq> []" using Cons.prems(2) by simp
    show "\<forall>r \<in> set (f x). key r = g x" using Cons.prems(2) by simp
    show "\<forall>r \<in> set (concat (map f xs)). key r \<noteq> g x"
    proof
      fix r assume "r \<in> set (concat (map f xs))"
      then obtain x' where x': "x' \<in> set xs" "r \<in> set (f x')" by auto
      with Cons.prems(2) have "key r = g x'" by simp
      moreover from Cons.prems(1) have "g x \<notin> g ` set xs" by simp
      with x'(1) have "g x' \<noteq> g x" by (metis imageI)
      ultimately show "key r \<noteq> g x" by simp
    qed
  qed
  moreover have "group_rows key (concat (map f xs)) = map (\<lambda>x. (g x, f x)) xs"
    using Cons.prems by (intro Cons.IH) simp_all
  ultimately show ?case by simp
qed

lemma left_matches_not_Nil: "left_matches ys \<noteq> []"
  by (simp add: left_matches_def)

lemma map_filter_Some: "List.map_filter (\<lambda>x. x) (map Some ys) = ys"
  by (induction ys) (simp_all add: map_filter_simps)

lemma map_filter_left_matches: "List.map_filter (\<lambda>x. x) (left_matches ys) = ys"
  by (simp add: left_matches_def map_filter_Some map_filter_simps)

lemma map_filter_map: "List.map_filter f (map g xs) = List.map_filter (\<lambda>x. f (g x)) xs"
  by (induction xs) (simp_all add: map_filter_simps split: option.splits)

lemma list_courses_eq:
  assumes "distinct (map c_CourseID (Course s))"
  shows "list_courses coll s =
         sort_key (\<lambda>v. coll (CourseName v)) (map (course_view_of s) (Course s))"
proof -
  let ?m = "\<lambda>c. filter (\<lambda>r. sc_CourseID r = c_CourseID c) (StudentCourse s)"
  let ?f = "\<lambda>c. map (Pair c) (left_matches (?m c))"
  let ?key = "\<lambda>(c, sc). (c_CourseID c, c_CourseName c)"
  let ?g = "\<lambda>c. (c_CourseID c, c_CourseName c)"
  have "distinct (map ?g (Course s))"
    using assms by (simp add: distinct_map inj_on_def)
  moreover have "\<forall>c \<in> set (Course s). ?f c \<noteq> [] \<and> (\<forall>r \<in> set (?f c). ?key r = ?g c)"
    by (auto simp: left_matches_not_Nil)
  ultimately have groups: "group_rows ?key (concat (map ?f (Course s))) = map (\<lambda>c. (?g c, ?f c)) (Course s)"
    by (rule group_rows_concat)
  have cnt: "List.map_filter (\<lambda>(c, sc). sc) (?f c) = ?m c" for c :: course_row
    by (simp add: map_filter_map map_filter_left_matches)
  have views: "map (\<lambda>((cid, name), rs).
                  \<lparr>CourseID = cid, CourseName = name,
                   StudentCount = int (length (List.map_filter (\<lambda>(c, sc). sc) rs))\<rparr>)
             (map (\<lambda>c. (?g c, ?f c)) (Course s)) =
        map (course_view_of s) (Course s)"
    by (simp add: course_view_of_def cnt)
  let ?view = "\<lambda>((cid, name), rs).
                  \<lparr>CourseID = cid, CourseName = name,
                   StudentCount = int (length (List.map_filter (\<lambda>(c, sc). sc) rs))\<rparr>"
  have "list_courses coll s =
        sort_key (\<lambda>v. coll (CourseName v))
          (map ?view (group_rows ?key [(c, sc). c \<leftarrow> Course s, sc \<leftarrow> left_matches (?m c)]))"
    by (simp only: list_courses_def Let_def)
  also have "\<dots> = sort_key (\<lambda>v. coll (CourseName v))
          (map ?view (map (\<lambda>c. (?g c, ?f c)) (Course s)))"
    by (simp only: groups)
  finally show ?thesis by (simp only: views)
qed

lemma enrollment_count:
  assumes "distinct (StudentCourse s)"
  shows "length (filter (\<lambda>r. sc_CourseID r = cid) (StudentCourse s)) =
         card {sid. \<lparr>sc_StudentID = sid, sc_CourseID = cid\<rparr> \<in> set (StudentCourse s)}"
proof -
  let ?R = "{r \<in> set (StudentCourse s). sc_CourseID r = cid}"
  have "length (filter (\<lambda>r. sc_CourseID r = cid) (StudentCourse s)) = card ?R"
    using assms by (simp add: distinct_length_filter Int_def conj_commute)
  also have "card ?R = card (sc_StudentID ` ?R)"
  proof (rule card_image [symmetric])
    show "inj_on sc_StudentID ?R" by (rule inj_onI) simp
  qed
  also have "sc_StudentID ` ?R = {sid. \<lparr>sc_StudentID = sid, sc_CourseID = cid\<rparr> \<in> set (StudentCourse s)}"
  proof (intro equalityI subsetI)
    fix sid assume "sid \<in> sc_StudentID ` ?R"
    then obtain r where r: "r \<in> set (StudentCourse s)" "sc_CourseID r = cid" "sc_StudentID r = sid"
      by auto
    then have "r = \<lparr>sc_StudentID = sid, sc_CourseID = cid\<rparr>" by simp
    with r(1) show "sid \<in> {sid. \<lparr>sc_StudentID = sid, sc_CourseID = cid\<rparr> \<in> set (StudentCourse s)}"
      by simp
  next
    fix sid assume "sid \<in> {sid. \<lparr>sc_StudentID = sid, sc_CourseID = cid\<rparr> \<in> set (StudentCourse s)}"
    then have "\<lparr>sc_StudentID = sid, sc_CourseID = cid\<rparr> \<in> ?R" by simp
    then have "sc_StudentID \<lparr>sc_StudentID = sid, sc_CourseID = cid\<rparr> \<in> sc_StudentID ` ?R"
      by (rule imageI)
    then show "sid \<in> sc_StudentID ` ?R" by simp
  qed
  finally show ?thesis .
qed

text \<open>
  Claim C9. When CourseID is a key of Course and no enrollment pair is stored twice,
  \<^verbatim>\<open>list_courses\<close> returns every course exactly once (as many rows as courses, no
  identifier twice, the same identifier and name pairs), ordered by course name in the
  store's order of names, and the count of each row is the number of distinct students
  with an enrollment row for that course, which is zero when there is none.
\<close>

theorem list_courses_correct:
  assumes pk: "distinct (map c_CourseID (Course s))" and uq: "distinct (StudentCourse s)"
  shows "distinct (map CourseID (list_courses coll s)) \<and>
         set (map (\<lambda>v. (CourseID v, CourseName v)) (list_courses coll s)) =
           set (map (\<lambda>c. (c_CourseID c, c_CourseName c)) (Course s)) \<and>
         length (list_courses coll s) = length (Course s) \<and>
         sorted (map (\<lambda>v. coll (CourseName v)) (list_courses coll s)) \<and>
         (\<forall>v \<in> set (list_courses coll s).
            StudentCount v =
              int (card {sid. \<lparr>sc_StudentID = sid, sc_CourseID = CourseID v\<rparr>
                                \<in> set (StudentCourse s)}))"
proof -
  let ?vs = "map (course_view_of s) (Course s)"
  have eq: "list_courses coll s = sort_key (\<lambda>v. coll (CourseName v)) ?vs"
    using pk by (rule list_courses_eq)
  have ids: "map CourseID ?vs = map c_CourseID (Course s)"
    by (simp add: course_view_of_def)
  have "distinct (map CourseID ?vs)" unfolding ids by (rule pk)
  then have "distinct ?vs \<and> inj_on CourseID (set ?vs)"
    by (simp only: distinct_map)
  then have 1: "distinct (map CourseID (list_courses coll s))"
    unfolding eq by (simp only: distinct_map distinct_sort set_sort)
  have 2: "set (map (\<lambda>v. (CourseID v, CourseName v)) (list_courses coll s)) =
           set (map (\<lambda>c. (c_CourseID c, c_CourseName c)) (Course s))"
    unfolding eq by (simp add: course_view_of_def image_image)
  have 3: "length (list_courses coll s) = length (Course s)"
    unfolding eq by simp
  have 4: "sorted (map (\<lambda>v. coll (CourseName v)) (list_courses coll s))"
    unfolding eq by (rule sorted_sort_key)
  have 5: "\<forall>v \<in> set (list_courses coll s).
            StudentCount v =
              int (card {sid. \<lparr>sc_StudentID = sid, sc_CourseID = CourseID v\<rparr>
                                \<in> set (StudentCourse s)})"
  proof
    fix v assume "v \<in> set (list_courses coll s)"
    then obtain c where "v = course_view_of s c" unfolding eq by auto
    then show "StudentCount v =
              int (card {sid. \<lparr>sc_StudentID = sid, sc_CourseID = CourseID v\<rparr>
                                \<in> set (StudentCourse s)})"
      using enrollment_count [OF uq, of "c_CourseID c"] by (simp add: course_view_of_def)
  qed
  from 1 2 3 4 5 show ?thesis by (intro conjI)
qed

theorem list_courses_correct_witness:
  "distinct (map c_CourseID (Course alice_math_store)) \<and>
   distinct (StudentCourse alice_math_store) \<and>
   list_courses id alice_math_store =
     [\<lparr>CourseID = 1, CourseName = (str ''Bio''), StudentCount = 1\<rparr>,
      \<lparr>CourseID = 2, CourseName = (str ''Chem''), StudentCount = 0\<rparr>,
      \<lparr>CourseID = 3, CourseName = (str ''Math''), StudentCount = 1\<rparr>] \<and>
   sorted (map (\<lambda>v. id (CourseName v)) (list_courses id alice_math_store)) \<and>
   length (list_courses id alice_math_store) = 3"
proof -
  have pk: "distinct (map c_CourseID (Course alice_math_store))" by code_simp
  have uq: "distinct (StudentCourse alice_math_store)" by code_simp
  have l: "list_courses id alice_math_store =
     [\<lparr>CourseID = 1, CourseName = (str ''Bio''), StudentCount = 1\<rparr>,
      \<lparr>CourseID = 2, CourseName = (str ''Chem''), StudentCount = 0\<rparr>,
      \<lparr>CourseID = 3, CourseName = (str ''Math''), StudentCount = 1\<rparr>]" by code_simp
  have n: "length (Course alice_math_store) = 3" by code_simp
  from list_courses_correct [OF pk uq, of id] n
  have "sorted (map (\<lambda>v. id (CourseName v)) (list_courses id alice_math_store))"
    and "length (list_courses id alice_math_store) = 3"
    by simp_all
  with pk uq l show ?thesis by (intro conjI)
qed

lemma student_join_eq: "student_join s = concat (map (student_rows s) (Student s))"
  unfolding student_join_def
  by (rule arg_cong [where f = concat], rule map_cong [OF refl]) (simp only: student_rows_def)

lemma course_matches_not_Nil:
  "(case sc of None \<Rightarrow> [None]
    | Some r \<Rightarrow> left_matches (filter (\<lambda>c. c_CourseID c = sc_CourseID r) (Course s))) \<noteq> []"
  by (cases sc) (simp_all add: left_matches_not_Nil)

lemma student_rows_not_Nil: "student_rows s st \<noteq> []"
proof -
  let ?D = "left_matches (filter (\<lambda>d. d_StudentID d = s_StudentID st) (StudentDetails s))"
  let ?S = "left_matches (filter (\<lambda>r. sc_StudentID r = s_StudentID st) (StudentCourse s))"
  obtain d ds where D: "?D = d # ds" using left_matches_not_Nil [of "filter (\<lambda>d. d_StudentID d = s_StudentID st) (StudentDetails s)"]
    by (cases ?D) auto
  obtain sc scs where S: "?S = sc # scs" using left_matches_not_Nil [of "filter (\<lambda>r. sc_StudentID r = s_StudentID st) (StudentCourse s)"]
    by (cases ?S) auto
  obtain c cs where C: "(case sc of None \<Rightarrow> [None]
    | Some r \<Rightarrow> left_matches (filter (\<lambda>c. c_CourseID c = sc_CourseID r) (Course s))) = c # cs"
    using course_matches_not_Nil [where sc = sc and s = s]
    by (cases "(case sc of None \<Rightarrow> [None]
    | Some r \<Rightarrow> left_matches (filter (\<lambda>c. c_CourseID c = sc_CourseID r) (Course s)))") auto
  show ?thesis
    unfolding student_rows_def D S by (simp add: C)
qed

lemma student_rows_fst: "r \<in> set (student_rows s st) \<Longrightarrow> fst r = st"
  by (auto simp: student_rows_def)

lemma distinct_map_ConsD:
  assumes "distinct (map f (x # xs))" and "y \<in> set xs"
  shows "f y \<noteq> f x"
proof -
  from assms(1) have "f x \<notin> f ` set xs" by simp
  with assms(2) show ?thesis by (metis imageI)
qed

lemma filter_key_unique:
  assumes "distinct (map f xs)"
  shows "filter (\<lambda>x. f x = k) xs = (case List.find (\<lambda>x. f x = k) xs of None \<Rightarrow> [] | Some x \<Rightarrow> [x])"
  using assms
proof (induction xs)
  case Nil show ?case by simp
next
  case (Cons x xs)
  show ?case
  proof (cases "f x = k")
    case True
    have "\<forall>y \<in> set xs. f y \<noteq> k"
    proof
      fix y assume "y \<in> set xs"
      with Cons.prems have "f y \<noteq> f x" by (rule distinct_map_ConsD)
      then show "f y \<noteq> k" unfolding True .
    qed
    then have "filter (\<lambda>x. f x = k) xs = []" by (simp add: filter_empty_conv)
    with True show ?thesis by simp
  next
    case False
    with Cons show ?thesis by simp
  qed
qed

lemma left_matches_details:
  assumes "student_keys_ok s"
  shows "left_matches (filter (\<lambda>d. d_StudentID d = sid) (StudentDetails s)) = [details_of s sid]"
proof -
  from assms have "distinct (map d_StudentID (StudentDetails s))"
    by (simp add: student_keys_ok_def)
  from filter_key_unique [OF this, of sid] show ?thesis
    by (cases "List.find (\<lambda>x. d_StudentID x = sid) (StudentDetails s)")
       (simp_all add: left_matches_def details_of_def)
qed

lemma student_rows_keyed:
  assumes "student_keys_ok s"
  shows "student_rows s st =
     [(st, details_of s (s_StudentID st), sc, c).
        sc \<leftarrow> left_matches (filter (\<lambda>r. sc_StudentID r = s_StudentID st) (StudentCourse s)),
        c \<leftarrow> (case sc of
               None \<Rightarrow> [None]
             | Some r \<Rightarrow> left_matches (filter (\<lambda>c. c_CourseID c = sc_CourseID r) (Course s)))]"
  unfolding student_rows_def left_matches_details [OF assms] by simp

lemma student_rows_details:
  assumes "student_keys_ok s" and "r \<in> set (student_rows s st)"
  shows "fst (snd r) = details_of s (s_StudentID st)"
  using assms(2) unfolding student_rows_keyed [OF assms(1)] by auto

lemma map_filter_append:
  "List.map_filter f (xs @ ys) = List.map_filter f xs @ List.map_filter f ys"
  by (simp add: List.map_filter_def)

lemma map_filter_concat:
  "List.map_filter f (concat xss) = concat (map (List.map_filter f) xss)"
  by (induction xss) (simp_all add: map_filter_append map_filter_simps)

lemma student_rows_names:
  assumes "student_keys_ok s"
  shows "map c_CourseName (List.map_filter (\<lambda>(st, d, sc, c). c) (student_rows s st)) =
         enrolled_names s (s_StudentID st)"
proof -
  let ?sid = "s_StudentID st"
  let ?SC = "filter (\<lambda>r. sc_StudentID r = ?sid) (StudentCourse s)"
  let ?C = "\<lambda>sc. case sc of
               None \<Rightarrow> [None]
             | Some r \<Rightarrow> left_matches (filter (\<lambda>c. c_CourseID c = sc_CourseID r) (Course s))"
  let ?d = "details_of s ?sid"
  have rows: "student_rows s st = concat (map (\<lambda>sc. map (\<lambda>c. (st, ?d, sc, c)) (?C sc)) (left_matches ?SC))"
    unfolding student_rows_keyed [OF assms] by simp
  have inner: "List.map_filter (\<lambda>(st, d, sc, c). c) (map (\<lambda>c. (st, ?d, sc, c)) (?C sc)) =
      (case sc of None \<Rightarrow> [] | Some r \<Rightarrow> filter (\<lambda>c. c_CourseID c = sc_CourseID r) (Course s))"
    for sc :: "enrollment_row option"
    by (cases sc) (simp_all add: map_filter_map map_filter_left_matches map_filter_simps)
  have "List.map_filter (\<lambda>(st, d, sc, c). c) (student_rows s st) =
        concat (map (\<lambda>sc. case sc of None \<Rightarrow> []
                  | Some r \<Rightarrow> filter (\<lambda>c. c_CourseID c = sc_CourseID r) (Course s))
                (left_matches ?SC))"
    unfolding rows map_filter_concat map_map comp_def inner by (rule refl)
  also have "\<dots> = concat (map (\<lambda>r. filter (\<lambda>c. c_CourseID c = sc_CourseID r) (Course s)) ?SC)"
    by (simp add: left_matches_def comp_def)
  finally show ?thesis
    by (simp add: enrolled_names_def map_concat comp_def)
qed

lemma filter_concat_fst:
  assumes "\<forall>x \<in> set xs. \<forall>r \<in> set (f x). fst r = x"
  shows "filter (\<lambda>r. Q (fst r)) (concat (map f xs)) = concat (map f (filter Q xs))"
  using assms
proof (induction xs)
  case Nil show ?case by simp
next
  case (Cons x xs)
  then have ih: "filter (\<lambda>r. Q (fst r)) (concat (map f xs)) = concat (map f (filter Q xs))"
    by simp
  from Cons.prems have fx: "\<forall>r \<in> set (f x). fst r = x" by simp
  show ?case
  proof (cases "Q x")
    case True
    with fx have "filter (\<lambda>r. Q (fst r)) (f x) = f x" by (intro filter_True) simp
    with True ih show ?thesis by simp
  next
    case False
    with fx have "filter (\<lambda>r. Q (fst r)) (f x) = []" by (simp add: filter_empty_conv)
    with False ih show ?thesis by simp
  qed
qed

lemma list_students_eq:
  assumes ok: "student_keys_ok s"
  shows "list_students coll s student_id =
     sort_key (\<lambda>v. - StudentID v)
       (map (student_view_of coll s) (filter (where_student student_id) (Student s)))"
proof -
  let ?sts = "filter (where_student student_id) (Student s)"
  let ?key = "\<lambda>(st, d, sc, c). (st, map_option d_PhoneNumber d, Option.bind d d_CourseS)"
  let ?g = "\<lambda>st. (st, map_option d_PhoneNumber (details_of s (s_StudentID st)),
                   Option.bind (details_of s (s_StudentID st)) d_CourseS)"
  let ?view = "\<lambda>((st, phone, legacy), rs).
                  \<lparr>StudentID = s_StudentID st, Name = s_Name st, Age = s_Age st,
                   Email = s_Email st, PhoneNumber = phone,
                   Courses =
                     coalesce
                       (nullif_empty
                          (group_concat_distinct coll
                             (map c_CourseName
                                (List.map_filter (\<lambda>(st, d, sc, c). c) rs))))
                       legacy\<rparr>"
  have w: "(\<lambda>(st, d, sc, c). case student_id of None \<Rightarrow> True | Some i \<Rightarrow> s_StudentID st = i) =
           (\<lambda>r. where_student student_id (fst r))"
    by (rule ext) (simp add: where_student_def split_def)
  have "\<forall>st \<in> set (Student s). \<forall>r \<in> set (student_rows s st). fst r = st"
    using student_rows_fst by blast
  then have rows: "filter (\<lambda>r. where_student student_id (fst r)) (student_join s) =
      concat (map (student_rows s) ?sts)"
    unfolding student_join_eq by (rule filter_concat_fst)
  from ok have "distinct (Student s)"
    by (simp add: student_keys_ok_def distinct_map)
  then have "distinct ?sts" by simp
  then have dg: "distinct (map ?g ?sts)"
    by (simp add: distinct_map inj_on_def)
  have keyed: "\<forall>st \<in> set ?sts. student_rows s st \<noteq> [] \<and>
      (\<forall>r \<in> set (student_rows s st). ?key r = ?g st)"
  proof (intro ballI conjI)
    fix st show "student_rows s st \<noteq> []" by (rule student_rows_not_Nil)
  next
    fix st r assume r: "r \<in> set (student_rows s st)"
    then have "fst r = st" by (rule student_rows_fst)
    moreover from ok r have "fst (snd r) = details_of s (s_StudentID st)"
      by (rule student_rows_details)
    ultimately show "?key r = ?g st" by (simp add: split_def)
  qed
  from dg keyed have groups: "group_rows ?key (concat (map (student_rows s) ?sts)) =
      map (\<lambda>st. (?g st, student_rows s st)) ?sts"
    by (rule group_rows_concat)
  have views: "map ?view (map (\<lambda>st. (?g st, student_rows s st)) ?sts) =
      map (student_view_of coll s) ?sts"
    by (simp add: student_view_of_def student_rows_names [OF ok])
  have "list_students coll s student_id =
      sort_key (\<lambda>v. - StudentID v)
        (map ?view (group_rows ?key
           (filter (\<lambda>r. where_student student_id (fst r)) (student_join s))))"
    by (simp only: list_students_def Let_def w)
  also have "\<dots> = sort_key (\<lambda>v. - StudentID v)
        (map ?view (map (\<lambda>st. (?g st, student_rows s st)) ?sts))"
    by (simp only: rows groups)
  finally show ?thesis by (simp only: views)
qed

lemma student_view_of_Courses:
  "Courses (student_view_of coll s st) = courses_spec coll s (s_StudentID st)"
  by (simp add: student_view_of_def courses_spec_def legacy_courses_def Let_def
      group_concat_distinct_def nullif_empty_def coalesce_def)

lemma student_view_of_StudentID: "StudentID (student_view_of coll s st) = s_StudentID st"
  by (simp add: student_view_of_def)

lemma filter_where_student_Some:
  assumes "distinct (map s_StudentID (Student s))" and "st \<in> set (Student s)"
  shows "filter (where_student (Some (s_StudentID st))) (Student s) = [st]"
proof -
  have w: "where_student (Some (s_StudentID st)) = (\<lambda>x. s_StudentID x = s_StudentID st)"
    by (rule ext) (simp add: where_student_def)
  from assms(2) have f: "List.find (\<lambda>x. s_StudentID x = s_StudentID st) (Student s) \<noteq> None"
    by (auto simp: find_None_iff)
  then obtain x where x: "List.find (\<lambda>x. s_StudentID x = s_StudentID st) (Student s) = Some x"
    by auto
  then have xs: "x \<in> set (Student s)" "s_StudentID x = s_StudentID st"
    by (auto simp: find_Some_iff)
  from assms(1) have "inj_on s_StudentID (set (Student s))" by (simp add: distinct_map)
  with xs assms(2) have "x = st" by (auto dest: inj_onD)
  with x filter_key_unique [OF assms(1), of "s_StudentID st"] show ?thesis
    unfolding w by simp
qed

lemma filter_where_student_absent:
  assumes "i \<notin> s_StudentID ` set (Student s)"
  shows "filter (where_student (Some i)) (Student s) = []"
  using assms by (auto simp: filter_empty_conv where_student_def)

lemma group_rows_eq_Nil: "group_rows key rows = [] \<longleftrightarrow> rows = []"
  by (simp add: group_rows_def)

lemma sort_key_eq_Nil: "sort_key f xs = [] \<longleftrightarrow> xs = []"
  by (metis length_0_conv length_sort)

lemma list_students_eq_Nil:
  "list_students coll s (Some i) = [] \<longleftrightarrow> i \<notin> s_StudentID ` set (Student s)"
proof -
  let ?W = "\<lambda>(st, d, sc, c). case Some i of None \<Rightarrow> True | Some i \<Rightarrow> s_StudentID st = i"
  have "list_students coll s (Some i) = [] \<longleftrightarrow> filter ?W (student_join s) = []"
    unfolding list_students_def Let_def
    by (simp only: sort_key_eq_Nil map_is_Nil_conv group_rows_eq_Nil)
  also have "\<dots> \<longleftrightarrow> (\<forall>r \<in> set (student_join s). s_StudentID (fst r) \<noteq> i)"
    by (simp add: filter_empty_conv split_def)
  also have "\<dots> \<longleftrightarrow> (\<forall>st \<in> set (Student s). s_StudentID st \<noteq> i)"
  proof
    assume a: "\<forall>r \<in> set (student_join s). s_StudentID (fst r) \<noteq> i"
    show "\<forall>st \<in> set (Student s). s_StudentID st \<noteq> i"
    proof
      fix st assume st: "st \<in> set (Student s)"
      obtain r where r: "r \<in> set (student_rows s st)"
        using student_rows_not_Nil [of s st] by (cases "student_rows s st") auto
      with st have "r \<in> set (student_join s)" unfolding student_join_eq by auto
      with a have "s_StudentID (fst r) \<noteq> i" by blast
      with student_rows_fst [OF r] show "s_StudentID st \<noteq> i" by simp
    qed
  next
    assume a: "\<forall>st \<in> set (Student s). s_StudentID st \<noteq> i"
    show "\<forall>r \<in> set (student_join s). s_StudentID (fst r) \<noteq> i"
    proof
      fix r assume "r \<in> set (student_join s)"
      then obtain st where st: "st \<in> set (Student s)" "r \<in> set (student_rows s st)"
        unfolding student_join_eq by auto
      from student_rows_fst [OF st(2)] a st(1) show "s_StudentID (fst r) \<noteq> i" by simp
    qed
  qed
  finally show ?thesis by auto
qed

text \<open>
  Claim C10. \<^verbatim>\<open>get_student\<close> returns \<^verbatim>\<open>None\<close> exactly when no Student row has the
  identifier. When StudentID is a key of Student and of StudentDetails, the listing
  filtered by an identifier has at most one row, and for an identifier of a student it is
  the one aggregated record of that student, which \<^verbatim>\<open>get_student\<close> returns.
\<close>

theorem get_student_result:
  "(get_student coll s student_id = None \<longleftrightarrow> student_id \<notin> s_StudentID ` set (Student s)) \<and>
   (student_keys_ok s \<longrightarrow>
      length (list_students coll s (Some student_id)) \<le> 1 \<and>
      (\<forall>st \<in> set (Student s). s_StudentID st = student_id \<longrightarrow>
         list_students coll s (Some student_id) = [student_view_of coll s st] \<and>
         get_student coll s student_id = Some (student_view_of coll s st)))"
proof -
  have none: "get_student coll s student_id = None \<longleftrightarrow>
      student_id \<notin> s_StudentID ` set (Student s)"
  proof -
    have "get_student coll s student_id = None \<longleftrightarrow> list_students coll s (Some student_id) = []"
      by (simp add: get_student_def split: list.splits)
    then show ?thesis by (simp only: list_students_eq_Nil)
  qed
  have keyed: "length (list_students coll s (Some student_id)) \<le> 1 \<and>
      (\<forall>st \<in> set (Student s). s_StudentID st = student_id \<longrightarrow>
         list_students coll s (Some student_id) = [student_view_of coll s st] \<and>
         get_student coll s student_id = Some (student_view_of coll s st))"
    if ok: "student_keys_ok s"
  proof -
    from ok have pk: "distinct (map s_StudentID (Student s))" by (simp add: student_keys_ok_def)
    have one: "list_students coll s (Some student_id) = [student_view_of coll s st] \<and>
         get_student coll s student_id = Some (student_view_of coll s st)"
      if st: "st \<in> set (Student s)" and sid: "s_StudentID st = student_id" for st
    proof -
      from filter_where_student_Some [OF pk st]
      have "list_students coll s (Some student_id) = [student_view_of coll s st]"
        unfolding list_students_eq [OF ok] sid by simp
      then show ?thesis by (simp add: get_student_def)
    qed
    have "length (list_students coll s (Some student_id)) \<le> 1"
    proof (cases "student_id \<in> s_StudentID ` set (Student s)")
      case True
      then obtain st where "st \<in> set (Student s)" "s_StudentID st = student_id" by auto
      from one [OF this] show ?thesis by simp
    next
      case False
      then have "list_students coll s (Some student_id) = []"
        unfolding list_students_eq_Nil .
      then show ?thesis by simp
    qed
    with one show ?thesis by blast
  qed
  from none keyed show ?thesis by blast
qed

theorem get_student_result_witness:
  "student_keys_ok alice_store \<and>
   get_student id alice_store 1 = Some alice_view \<and>
   list_students id alice_store (Some 1) = [alice_view] \<and>
   get_student id alice_store 2 = None \<and>
   2 \<notin> s_StudentID ` set (Student alice_store)"
proof -
  have ok: "student_keys_ok alice_store" by code_simp
  have st: "\<lparr>s_StudentID = 1, s_Name = (str ''Alice''), s_Age = 20, s_Email = (str ''a@x.com'')\<rparr>
      \<in> set (Student alice_store)"
    by code_simp
  have v: "student_view_of id alice_store
      \<lparr>s_StudentID = 1, s_Name = (str ''Alice''), s_Age = 20, s_Email = (str ''a@x.com'')\<rparr> = alice_view"
    by code_simp
  have no: "2 \<notin> s_StudentID ` set (Student alice_store)" by code_simp
  from get_student_result [of id alice_store 1] ok st
  have "list_students id alice_store (Some 1) =
      [student_view_of id alice_store
         \<lparr>s_StudentID = 1, s_Name = (str ''Alice''), s_Age = 20, s_Email = (str ''a@x.com'')\<rparr>] \<and>
    get_student id alice_store 1 =
      Some (student_view_of id alice_store
         \<lparr>s_StudentID = 1, s_Name = (str ''Alice''), s_Age = 20, s_Email = (str ''a@x.com'')\<rparr>)"
    by force
  then have a: "list_students id alice_store (Some 1) = [alice_view]"
    and b: "get_student id alice_store 1 = Some alice_view"
    unfolding v by simp_all
  from get_student_result [of id alice_store 2] no
  have c: "get_student id alice_store 2 = None" by blast
  from ok b a c no show ?thesis by (intro conjI)
qed

text \<open>
  Claim C4. When StudentID is a key of Student and of StudentDetails, the Courses value
  that \<^verbatim>\<open>get_student\<close> and \<^verbatim>\<open>list_students\<close> report for a student is \<open>courses_spec\<close>: the
  names of the courses reached through the student's enrollment rows, without duplicates
  under the store's comparison of names (without regard to case under a case-insensitive
  collation), sorted, joined by comma and space, the legacy field playing no part,
  whenever that text is not empty; and the legacy field when there is no such name. Every
  student is in the listing. A student with legacy field \<^verbatim>\<open>"Biology"\<close> and no enrollment
  row is reported with Courses \<^verbatim>\<open>"Biology"\<close>.
\<close>

theorem list_students_courses:
  "(student_keys_ok s \<longrightarrow>
      (\<forall>st \<in> set (Student s).
         (\<exists>v. get_student coll s (s_StudentID st) = Some v \<and>
              Courses v = courses_spec coll s (s_StudentID st)) \<and>
         (\<exists>v \<in> set (list_students coll s None). StudentID v = s_StudentID st)) \<and>
      (\<forall>v \<in> set (list_students coll s None).
         Courses v = courses_spec coll s (StudentID v))) \<and>
   enrolled_names biology_store 7 = [] \<and>
   legacy_courses biology_store 7 = Some (str ''Biology'') \<and>
   list_students id biology_store None = [bob_view] \<and>
   get_student id biology_store 7 = Some bob_view \<and>
   Courses bob_view = Some (str ''Biology'')"
proof -
  have general: "(\<forall>st \<in> set (Student s).
         (\<exists>v. get_student coll s (s_StudentID st) = Some v \<and>
              Courses v = courses_spec coll s (s_StudentID st)) \<and>
         (\<exists>v \<in> set (list_students coll s None). StudentID v = s_StudentID st)) \<and>
      (\<forall>v \<in> set (list_students coll s None).
         Courses v = courses_spec coll s (StudentID v))"
    if ok: "student_keys_ok s"
  proof -
    have all: "filter (where_student None) (Student s) = Student s"
      by (simp add: where_student_def)
    have listing: "set (list_students coll s None) = student_view_of coll s ` set (Student s)"
      unfolding list_students_eq [OF ok] all by simp
    have 1: "(\<exists>v. get_student coll s (s_StudentID st) = Some v \<and>
              Courses v = courses_spec coll s (s_StudentID st)) \<and>
         (\<exists>v \<in> set (list_students coll s None). StudentID v = s_StudentID st)"
      if st: "st \<in> set (Student s)" for st
    proof -
      from get_student_result [of coll s "s_StudentID st"] ok st
      have "get_student coll s (s_StudentID st) = Some (student_view_of coll s st)"
        by blast
      then have "\<exists>v. get_student coll s (s_StudentID st) = Some v \<and>
              Courses v = courses_spec coll s (s_StudentID st)"
        by (simp add: student_view_of_Courses)
      moreover from st have "student_view_of coll s st \<in> set (list_students coll s None)"
        unfolding listing by (rule imageI)
      then have "\<exists>v \<in> set (list_students coll s None). StudentID v = s_StudentID st"
        using student_view_of_StudentID by blast
      ultimately show ?thesis by (rule conjI)
    qed
    have 2: "\<forall>v \<in> set (list_students coll s None).
         Courses v = courses_spec coll s (StudentID v)"
      unfolding listing by (simp add: student_view_of_Courses student_view_of_StudentID)
    from 1 2 show ?thesis by blast
  qed
  have e1: "enrolled_names biology_store 7 = []" by code_simp
  have e2: "legacy_courses biology_store 7 = Some (str ''Biology'')" by code_simp
  have e3: "list_students id biology_store None = [bob_view]" by code_simp
  have e4: "get_student id biology_store 7 = Some bob_view" by code_simp
  have e5: "Courses bob_view = Some (str ''Biology'')" by (simp add: bob_view_def)
  from general have g: "student_keys_ok s \<longrightarrow>
      (\<forall>st \<in> set (Student s).
         (\<exists>v. get_student coll s (s_StudentID st) = Some v \<and>
              Courses v = courses_spec coll s (s_StudentID st)) \<and>
         (\<exists>v \<in> set (list_students coll s None). StudentID v = s_StudentID st)) \<and>
      (\<forall>v \<in> set (list_students coll s None).
         Courses v = courses_spec coll s (StudentID v))"
    by (rule impI)
  show ?thesis by (intro conjI) (rule g e1 e2 e3 e4 e5)+
qed

theorem list_students_courses_witness:
  "student_keys_ok alice_math_store \<and>
   get_student ascii_ci alice_math_store 1 =
     Some \<lparr>StudentID = 1, Name = (str ''Alice''), Age = 20, Email = (str ''a@x.com''),
           PhoneNumber = Some (str ''555-1234''), Courses = Some (str ''Bio, Math'')\<rparr> \<and>
   courses_spec ascii_ci alice_math_store 1 = Some (str ''Bio, Math'')"
proof -
  have ok: "student_keys_ok alice_math_store" by code_simp
  have st: "\<lparr>s_StudentID = 1, s_Name = (str ''Alice''), s_Age = 20, s_Email = (str ''a@x.com'')\<rparr>
      \<in> set (Student alice_math_store)"
    by code_simp
  have g: "get_student ascii_ci alice_math_store 1 =
     Some \<lparr>StudentID = 1, Name = (str ''Alice''), Age = 20, Email = (str ''a@x.com''),
           PhoneNumber = Some (str ''555-1234''), Courses = Some (str ''Bio, Math'')\<rparr>"
    by code_simp
  from list_students_courses [of alice_math_store ascii_ci] ok st
  have "\<exists>v. get_student ascii_ci alice_math_store
          (s_StudentID \<lparr>s_StudentID = 1, s_Name = (str ''Alice''), s_Age = 20, s_Email = (str ''a@x.com'')\<rparr>) = Some v \<and>
        Courses v = courses_spec ascii_ci alice_math_store
          (s_StudentID \<lparr>s_StudentID = 1, s_Name = (str ''Alice''), s_Age = 20, s_Email = (str ''a@x.com'')\<rparr>)"
    by blast
  with g have "courses_spec ascii_ci alice_math_store 1 = Some (str ''Bio, Math'')"
    by simp
  with ok g show ?thesis by (intro conjI)
qed

end
